theory Spec2Isabelle
  imports Complex_Main "HOL-Library.AList"
begin

section \<open>Sensor intrinsics (config/sensors.py)\<close>

text \<open>
  Python floats are idealised as exact rationals: a literal such as \<open>4.28\<close> is the
  rational \<open>428/100\<close>, and arithmetic is exact. Strings are ASCII character lists.
  Python dictionaries keep insertion order, so they are association lists with unique
  keys; \<open>map_of\<close> is \<open>dict.get\<close>.
\<close>

datatype py_error = ZeroDivisionError | ValueError | AttributeError | RuntimeError

record CameraSensor =
  name :: string
  sensor_width_mm :: rat
  sensor_height_mm :: rat
  native_width_px :: int
  native_height_px :: int
  default_focal_length_mm :: "rat option"

definition SENSOR_DATABASE :: "(string \<times> CameraSensor) list" where
  "SENSOR_DATABASE =
    [(''imx519'', \<lparr>name = ''imx519'', sensor_width_mm = 464 / 100, sensor_height_mm = 348 / 100,
        native_width_px = 4656, native_height_px = 3496,
        default_focal_length_mm = Some (428 / 100)\<rparr>),
     (''hawkeye'', \<lparr>name = ''hawkeye'', sensor_width_mm = 645 / 100, sensor_height_mm = 484 / 100,
        native_width_px = 9152, native_height_px = 6944,
        default_focal_length_mm = Some (51 / 10)\<rparr>),
     (''imx708'', \<lparr>name = ''imx708'', sensor_width_mm = 645 / 100, sensor_height_mm = 363 / 100,
        native_width_px = 4608, native_height_px = 2592,
        default_focal_length_mm = Some (474 / 100)\<rparr>),
     (''imx477'', \<lparr>name = ''imx477'', sensor_width_mm = 6287 / 1000, sensor_height_mm = 4712 / 1000,
        native_width_px = 4056, native_height_px = 3040,
        default_focal_length_mm = Some 6\<rparr>)]"

definition CAMERA_SENSOR_ALIASES :: "(string \<times> string) list" where
  "CAMERA_SENSOR_ALIASES =
    [(''arducam_64mp'', ''hawkeye''), (''imx519'', ''imx519''),
     (''imx708'', ''imx708''), (''imx477'', ''imx477'')]"

text \<open>\<open>str.lower()\<close> on ASCII text: the letters A to Z move to a to z.\<close>

definition lower_char :: "char \<Rightarrow> char" where
  "lower_char c =
    (if 65 \<le> (of_char c :: nat) \<and> (of_char c :: nat) \<le> 90
     then char_of ((of_char c :: nat) + 32) else c)"

definition lower :: "string \<Rightarrow> string" where
  "lower s = map lower_char s"

text \<open>
  \<open>estimate_sensor_from_resolution\<close>: the first loop looks for an exact native
  match; the second computes \<open>width / height\<close> (Python raises ZeroDivisionError on a zero
  divisor) and walks the table in insertion order.
\<close>

fun exact_match :: "int \<Rightarrow> int \<Rightarrow> CameraSensor list \<Rightarrow> CameraSensor option" where
  "exact_match width height [] = None"
| "exact_match width height (sensor # rest) =
    (if native_width_px sensor = width \<and> native_height_px sensor = height then Some sensor
     else exact_match width height rest)"

fun ratio_match :: "rat \<Rightarrow> int \<Rightarrow> int \<Rightarrow> CameraSensor list \<Rightarrow> py_error + CameraSensor option" where
  "ratio_match target_ratio width height [] = Inr None"
| "ratio_match target_ratio width height (sensor # rest) =
    (if native_height_px sensor = 0 then Inl ZeroDivisionError
     else let sensor_ratio = of_int (native_width_px sensor) / of_int (native_height_px sensor) in
       if \<bar>sensor_ratio - target_ratio\<bar> < 1 / 100
          \<and> width \<le> native_width_px sensor \<and> height \<le> native_height_px sensor
       then Inr (Some sensor)
       else ratio_match target_ratio width height rest)"

definition estimate_sensor_from_resolution_in ::
  "(string \<times> CameraSensor) list \<Rightarrow> int \<Rightarrow> int \<Rightarrow> py_error + CameraSensor option" where
  "estimate_sensor_from_resolution_in db width height =
    (case exact_match width height (map snd db) of
       Some sensor \<Rightarrow> Inr (Some sensor)
     | None \<Rightarrow>
        if height = 0 then Inl ZeroDivisionError
        else ratio_match (of_int width / of_int height) width height (map snd db))"

definition estimate_sensor_from_resolution :: "int \<Rightarrow> int \<Rightarrow> py_error + CameraSensor option" where
  "estimate_sensor_from_resolution = estimate_sensor_from_resolution_in SENSOR_DATABASE"

section \<open>EXIF intrinsics (utils/photos/exif.py)\<close>

text \<open>Python's \<open>round\<close> on a float: to the nearest integer, ties to the even one.\<close>

definition py_round :: "rat \<Rightarrow> int" where
  "py_round x =
    (let f = \<lfloor>x\<rfloor>; d = x - of_int f in
     if d < 1 / 2 then f
     else if 1 / 2 < d then f + 1
     else if even f then f else f + 1)"

definition get_sensor_for_camera_in ::
  "(string \<times> string) list \<Rightarrow> (string \<times> CameraSensor) list \<Rightarrow> string \<Rightarrow> CameraSensor option" where
  "get_sensor_for_camera_in aliases db camera_name =
    (if camera_name = [] then None
     else let sensor_name = (case map_of aliases (lower camera_name) of
                               Some a \<Rightarrow> a | None \<Rightarrow> lower camera_name)
          in map_of db sensor_name)"

definition get_sensor_for_camera :: "string \<Rightarrow> CameraSensor option" where
  "get_sensor_for_camera = get_sensor_for_camera_in CAMERA_SENSOR_ALIASES SENSOR_DATABASE"

definition focal_to_rational :: "rat \<Rightarrow> int \<times> int" where
  "focal_to_rational focal_mm = (py_round (focal_mm * 100), 100)"

definition calculate_35mm_equivalent :: "rat \<Rightarrow> rat \<Rightarrow> int" where
  "calculate_35mm_equivalent focal_mm sensor_width =
    (if sensor_width \<le> 0 then py_round focal_mm
     else py_round (focal_mm * (36 / sensor_width)))"

datatype exif_tag = FocalLength | FocalLengthIn35mmFilm | PixelXDimension | PixelYDimension

datatype exif_value = Rational "int \<times> int" | Short int

type_synonym exif_dict = "(string \<times> (exif_tag \<times> exif_value) list) list"

text \<open>
  \<open>build_camera_intrinsics_exif\<close>. Whether \<open>import piexif\<close> succeeds is a fact of the
  installation, so it is the parameter \<open>piexif_ok\<close>. The empty dictionary is \<open>[]\<close>.
\<close>

definition build_camera_intrinsics_exif_in ::
  "(string \<times> string) list \<Rightarrow> (string \<times> CameraSensor) list \<Rightarrow> bool \<Rightarrow> string \<Rightarrow> int \<Rightarrow> int
    \<Rightarrow> exif_dict" where
  "build_camera_intrinsics_exif_in aliases db piexif_ok camera_name image_width image_height =
    (case get_sensor_for_camera_in aliases db camera_name of
       None \<Rightarrow> []
     | Some sensor \<Rightarrow>
        (case default_focal_length_mm sensor of
           None \<Rightarrow> []
         | Some focal \<Rightarrow>
            if \<not> piexif_ok then []
            else [(''Exif'',
                   [(FocalLength, Rational (focal_to_rational focal)),
                    (FocalLengthIn35mmFilm,
                       Short (calculate_35mm_equivalent focal (sensor_width_mm sensor))),
                    (PixelXDimension, Short image_width),
                    (PixelYDimension, Short image_height)])]))"

definition build_camera_intrinsics_exif :: "bool \<Rightarrow> string \<Rightarrow> int \<Rightarrow> int \<Rightarrow> exif_dict" where
  "build_camera_intrinsics_exif =
    build_camera_intrinsics_exif_in CAMERA_SENSOR_ALIASES SENSOR_DATABASE"

text \<open>A one-sensor table whose sensor has no default focal length (the tables are module
  globals, so the functions are also stated over any table).\<close>

definition no_focal_db :: "(string \<times> CameraSensor) list" where
  "no_focal_db = [(''bare'', \<lparr>name = ''bare'', sensor_width_mm = 1, sensor_height_mm = 1,
        native_width_px = 10, native_height_px = 10, default_focal_length_mm = None\<rparr>)]"

section \<open>Device orchestration (controllers/device.py)\<close>

subsection \<open>Descriptors, configuration and state\<close>

text \<open>
  The pydantic classes of the descriptors are declared outside these sources. A validated
  settings object is the dictionary of its fields; only \<open>EndstopConfig\<close> is read by field
  (\<open>settings.motor_name\<close>), so it is a record. The field \<open>name\<close> of the descriptors
  carries a prefix here, since records share one name space.
\<close>

datatype CameraType = LINUXPY | GPHOTO2 | PICAMERA2 | EXTERNAL

type_synonym settings_dict = "(string \<times> int) list"

record Camera =
  cam_type :: CameraType
  cam_name :: string
  cam_path :: string
  cam_settings :: "settings_dict option"

record Motor =
  m_name :: string
  m_settings :: settings_dict

record Light =
  l_name :: string
  l_settings :: settings_dict

record EndstopConfig =
  pin :: int
  angular_position :: rat
  motor_name :: string

record Endstop =
  e_name :: string
  e_settings :: EndstopConfig

text \<open>An endstop controller holds its endstop and the motor controller it was given.\<close>

record EndstopController =
  ec_endstop :: Endstop
  ec_controller :: Motor

record ScannerDevice =
  device_name :: string
  model :: "string option"
  shield :: "string option"
  cameras :: "(string \<times> Camera) list"
  motors :: "(string \<times> Motor) list"
  lights :: "(string \<times> Light) list"
  endstops :: "(string \<times> Endstop) list"
  initialized :: bool

text \<open>
  The configuration dictionary. A section read by \<open>config.get(key) or {}\<close> is absent (or
  falsy), a truthy value that is not a dictionary, or a dictionary. Motor and light entries
  are given as \<open>_load_motor_config\<close> and \<open>_load_light_config\<close> return them (these
  never raise: a rejected entry becomes the default object). A camera entry is not a
  dictionary, or has a type that \<open>CameraType(...)\<close> accepts or rejects; an endstop entry is
  a truthy value without \<open>.get\<close>, or yields the settings that \<open>_load_endstop_config\<close> returns.
\<close>

datatype 'a cfg_section = Absent | NotADict | Entries "(string \<times> 'a) list"

datatype camera_entry = CameraNotADict | CameraData "CameraType option" string settings_dict

datatype endstop_entry = EndstopNotADict | EndstopData EndstopConfig

record config =
  cfg_name :: "string option"
  cfg_model :: "string option"
  cfg_shield :: "string option"
  cfg_cameras :: "camera_entry cfg_section"
  cfg_motors :: "settings_dict cfg_section"
  cfg_lights :: "settings_dict cfg_section"
  cfg_endstops :: "endstop_entry cfg_section"

text \<open>
  What the program does to the hardware is recorded as a trace of calls on controllers and
  on the GPIO layer; what it writes to the logger as a list of entries.
\<close>

datatype category = CameraCat | MotorCat | LightCat | EndstopCat

datatype action =
    Create category string
  | Cleanup category string
  | TurnOn string
  | TurnOff string
  | StartListener string
  | ReleasePins
  | Broadcast

datatype log_entry =
    ActionFailed action
  | InvalidSection string
  | SkippedCamera string
  | DependencyMissing string
  | EndstopError string py_error
  | DetectError string
  | InvalidEnum string

record linux_device =
  opens :: bool
  info_card :: string
  filename :: string

text \<open>
  The environment of one call: which controller calls raise, what a controller's
  \<open>get_status\<close> returns, which camera back ends are installed, what the three camera
  probes find (\<open>None\<close>: the probe raises), the values the scanner enums accept, and the
  dictionary \<open>model_dump\<close> makes of the current device.
\<close>

record env =
  fails :: "action \<Rightarrow> bool"
  get_status :: "category \<Rightarrow> string \<Rightarrow> py_error + string"
  available :: "CameraType \<Rightarrow> bool"
  linux_devices :: "linux_device list option"
  gphoto2_cameras :: "(string \<times> string) list option"
  picamera2 :: "(string option \<times> string) option"
  scanner_models :: "string list"
  scanner_shields :: "string list"
  model_dump :: "ScannerDevice \<Rightarrow> config"

text \<open>
  The module state: \<open>_scanner_device\<close>, the three controller registries of the hardware
  modules, and \<open>_endstop_controllers\<close>.
\<close>

record state =
  scanner_device :: ScannerDevice
  camera_controllers :: "(string \<times> Camera) list"
  motor_controllers :: "(string \<times> Motor) list"
  light_controllers :: "(string \<times> Light) list"
  endstop_controllers :: "(string \<times> EndstopController) list"
  trace :: "action list"
  logged :: "log_entry list"

definition initial_state :: state where
  "initial_state =
    \<lparr>scanner_device =
       \<lparr>device_name = ''Unknown device'', model = None, shield = None, cameras = [],
        motors = [], lights = [], endstops = [], initialized = False\<rparr>,
     camera_controllers = [], motor_controllers = [], light_controllers = [],
     endstop_controllers = [], trace = [], logged = []\<rparr>"

definition log_msg :: "log_entry \<Rightarrow> state \<Rightarrow> state" where
  "log_msg m s = s\<lparr>logged := logged s @ [m]\<rparr>"

text \<open>A call on a controller: it is made (and recorded), and it raises or not.\<close>

definition perform :: "env \<Rightarrow> action \<Rightarrow> state \<Rightarrow> bool \<times> state" where
  "perform e a s = (fails e a, s\<lparr>trace := trace s @ [a]\<rparr>)"

text \<open>\<open>try: call except Exception: logger.error(...)\<close>\<close>

definition attempt :: "env \<Rightarrow> action \<Rightarrow> state \<Rightarrow> state" where
  "attempt e a s =
    (case perform e a s of
       (True, s') \<Rightarrow> log_msg (ActionFailed a) s'
     | (False, s') \<Rightarrow> s')"

subsection \<open>The controller registries\<close>

text \<open>
  Modelled from the spec: the registry modules (controllers/hardware/cameras/camera.py,
  motors.py, lights.py) and gpio.py are not among the sources. \<open>create\<close> constructs a
  controller and registers it under the descriptor's name; \<open>remove\<close> is a no-op if the
  name is absent, and otherwise invokes the controller's cleanup once and discards the
  entry. The specification names no handler inside \<open>remove\<close>, so none is modelled: a
  cleanup that raises leaves \<open>remove\<close> with its exception, before the entry is discarded.
  The boolean of the result tells whether the call raised. \<open>cleanup_all_pins\<close> is the
  single call that releases every claimed pin.
\<close>

definition create_camera_controller :: "env \<Rightarrow> Camera \<Rightarrow> state \<Rightarrow> bool \<times> state" where
  "create_camera_controller e camera s =
    (case perform e (Create CameraCat (cam_name camera)) s of
       (True, s') \<Rightarrow> (True, s')
     | (False, s') \<Rightarrow>
        (False, s'\<lparr>camera_controllers :=
                     AList.update (cam_name camera) camera (camera_controllers s')\<rparr>))"

definition create_motor_controller :: "env \<Rightarrow> Motor \<Rightarrow> state \<Rightarrow> bool \<times> state" where
  "create_motor_controller e motor s =
    (case perform e (Create MotorCat (m_name motor)) s of
       (True, s') \<Rightarrow> (True, s')
     | (False, s') \<Rightarrow>
        (False, s'\<lparr>motor_controllers :=
                     AList.update (m_name motor) motor (motor_controllers s')\<rparr>))"

definition create_light_controller :: "env \<Rightarrow> Light \<Rightarrow> state \<Rightarrow> bool \<times> state" where
  "create_light_controller e light s =
    (case perform e (Create LightCat (l_name light)) s of
       (True, s') \<Rightarrow> (True, s')
     | (False, s') \<Rightarrow>
        (False, s'\<lparr>light_controllers :=
                     AList.update (l_name light) light (light_controllers s')\<rparr>))"

definition remove_camera_controller :: "env \<Rightarrow> string \<Rightarrow> state \<Rightarrow> bool \<times> state" where
  "remove_camera_controller e n s =
    (case map_of (camera_controllers s) n of
       None \<Rightarrow> (False, s)
     | Some c \<Rightarrow>
        (case perform e (Cleanup CameraCat n) s of
           (True, s') \<Rightarrow> (True, s')
         | (False, s') \<Rightarrow>
            (False, s'\<lparr>camera_controllers := AList.delete n (camera_controllers s')\<rparr>)))"

definition remove_motor_controller :: "env \<Rightarrow> string \<Rightarrow> state \<Rightarrow> bool \<times> state" where
  "remove_motor_controller e n s =
    (case map_of (motor_controllers s) n of
       None \<Rightarrow> (False, s)
     | Some c \<Rightarrow>
        (case perform e (Cleanup MotorCat n) s of
           (True, s') \<Rightarrow> (True, s')
         | (False, s') \<Rightarrow>
            (False, s'\<lparr>motor_controllers := AList.delete n (motor_controllers s')\<rparr>)))"

definition remove_light_controller :: "env \<Rightarrow> string \<Rightarrow> state \<Rightarrow> bool \<times> state" where
  "remove_light_controller e n s =
    (case map_of (light_controllers s) n of
       None \<Rightarrow> (False, s)
     | Some c \<Rightarrow>
        (case perform e (Cleanup LightCat n) s of
           (True, s') \<Rightarrow> (True, s')
         | (False, s') \<Rightarrow>
            (False, s'\<lparr>light_controllers := AList.delete n (light_controllers s')\<rparr>)))"

text \<open>
  \<open>for name in list(registry.keys()): remove(name)\<close> with no handler around the call:
  the first call that raises ends the loop, and the exception goes on to the caller.
\<close>

fun for_each :: "('a \<Rightarrow> state \<Rightarrow> bool \<times> state) \<Rightarrow> 'a list \<Rightarrow> state \<Rightarrow> bool \<times> state" where
  "for_each f [] s = (False, s)"
| "for_each f (x # xs) s =
    (case f x s of
       (True, s') \<Rightarrow> (True, s')
     | (False, s') \<Rightarrow> for_each f xs s')"

definition get_motor_controller :: "string \<Rightarrow> state \<Rightarrow> Motor option" where
  "get_motor_controller n s = map_of (motor_controllers s) n"

definition cleanup_all_pins :: "state \<Rightarrow> state" where
  "cleanup_all_pins s = s\<lparr>trace := trace s @ [ReleasePins]\<rparr>"

subsection \<open>get_device_info\<close>

record device_info =
  info_name :: string
  info_model :: "string option"
  info_shield :: "string option"
  info_cameras :: "(string \<times> string) list"
  info_motors :: "(string \<times> string) list"
  info_lights :: "(string \<times> string) list"
  info_initialized :: bool

text \<open>
  \<open>{name: controller.get_status() for name, controller in registry.items()}\<close>: the
  comprehension has no handler, so the first status query that raises ends it.
\<close>

fun statuses :: "env \<Rightarrow> category \<Rightarrow> string list \<Rightarrow> py_error + (string \<times> string) list" where
  "statuses e c [] = Inr []"
| "statuses e c (n # ns) =
    (case get_status e c n of
       Inl err \<Rightarrow> Inl err
     | Inr st \<Rightarrow>
        (case statuses e c ns of
           Inl err \<Rightarrow> Inl err
         | Inr rest \<Rightarrow> Inr ((n, st) # rest)))"

definition get_device_info :: "env \<Rightarrow> state \<Rightarrow> py_error + device_info" where
  "get_device_info e s =
    (case statuses e CameraCat (map fst (camera_controllers s)) of
       Inl err \<Rightarrow> Inl err
     | Inr cs \<Rightarrow>
    (case statuses e MotorCat (map fst (motor_controllers s)) of
       Inl err \<Rightarrow> Inl err
     | Inr ms \<Rightarrow>
    (case statuses e LightCat (map fst (light_controllers s)) of
       Inl err \<Rightarrow> Inl err
     | Inr ls \<Rightarrow>
        Inr \<lparr>info_name = device_name (scanner_device s),
             info_model = model (scanner_device s),
             info_shield = shield (scanner_device s),
             info_cameras = cs, info_motors = ms, info_lights = ls,
             info_initialized = initialized (scanner_device s)\<rparr>)))"

subsection \<open>Camera detection\<close>

text \<open>\<open>str(n)\<close> for a natural number, and the \<open>while True\<close> scan of
  \<open>_unique_camera_name\<close>, which tries the suffixes 2, 3, ... in turn.\<close>

definition digit_char :: "nat \<Rightarrow> char" where
  "digit_char d = char_of (48 + d)"

fun str_nat :: "nat \<Rightarrow> string" where
  "str_nat n = (if n < 10 then [digit_char n] else str_nat (n div 10) @ [digit_char (n mod 10)])"

declare str_nat.simps [simp del]

function scan_suffix :: "string list \<Rightarrow> string \<Rightarrow> nat \<Rightarrow> string" where
  "scan_suffix taken nm suffix =
    (if nm @ ''-'' @ str_nat suffix \<notin> set taken then nm @ ''-'' @ str_nat suffix
     else scan_suffix taken nm (suffix + 1))"
  by pat_completeness auto
termination
proof (relation "measure (\<lambda>(taken, nm, suffix). 10 ^ sum_list (map length taken) - suffix)")
  show "wf (measure (\<lambda>(taken, nm, suffix). 10 ^ sum_list (map length taken) - suffix))"
    by simp
next
  fix taken :: "string list" and nm :: string and suffix :: nat
  assume "\<not> nm @ ''-'' @ str_nat suffix \<notin> set taken"
  then have mem: "nm @ ''-'' @ str_nat suffix \<in> set taken"
    by simp
  have digits: "n < 10 ^ length (str_nat n)" for n
  proof (induction n rule: str_nat.induct)
    case (1 n)
    show ?case
    proof (cases "n < 10")
      case True
      then show ?thesis by (simp add: str_nat.simps [of n])
    next
      case False
      with 1 have "n div 10 < 10 ^ length (str_nat (n div 10))" by simp
      then have "n < 10 * 10 ^ length (str_nat (n div 10))" by simp
      with False show ?thesis by (simp add: str_nat.simps [of n])
    qed
  qed
  have total: "x \<in> set xs \<Longrightarrow> length x \<le> sum_list (map length xs)" for x :: string and xs
    by (induction xs) auto
  have "length (nm @ ''-'' @ str_nat suffix) \<le> sum_list (map length taken)"
    using mem by (rule total)
  then have "length (str_nat suffix) \<le> sum_list (map length taken)"
    by simp
  then have "(10::nat) ^ length (str_nat suffix) \<le> 10 ^ sum_list (map length taken)"
    by (simp add: power_increasing)
  with digits [of suffix] have "suffix < 10 ^ sum_list (map length taken)"
    by (rule less_le_trans)
  then show "((taken, nm, suffix + 1), (taken, nm, suffix))
      \<in> measure (\<lambda>(taken, nm, suffix). 10 ^ sum_list (map length taken) - suffix)"
    by simp
qed

declare scan_suffix.simps [simp del]

definition unique_camera_name :: "(string \<times> Camera) list \<Rightarrow> string option \<Rightarrow> string" where
  "unique_camera_name cams base_name =
    (let nm = (case base_name of None \<Rightarrow> ''camera'' | Some b \<Rightarrow> if b = [] then ''camera'' else b)
     in if nm \<notin> set (map fst cams) then nm
        else scan_suffix (map fst cams) nm 2)"

definition add_camera ::
  "CameraType \<Rightarrow> string option \<Rightarrow> string \<Rightarrow> settings_dict option \<Rightarrow> (string \<times> Camera) list
    \<Rightarrow> (string \<times> Camera) list" where
  "add_camera t base_name path st cams =
    (let nm = unique_camera_name cams base_name
     in AList.update nm \<lparr>cam_type = t, cam_name = nm, cam_path = path, cam_settings = st\<rparr> cams)"

text \<open>The loop over the V4L2 devices; a device that fails to open ends the loop through the
  handler around it, and the cameras found so far stay.\<close>

fun detect_linux :: "linux_device list \<Rightarrow> (string \<times> Camera) list \<Rightarrow> bool \<times> (string \<times> Camera) list" where
  "detect_linux [] cams = (False, cams)"
| "detect_linux (cam # rest) cams =
    (if \<not> opens cam then (True, cams)
     else if info_card cam \<notin> {''unicam'', ''bcm2835-isp''}
       then detect_linux rest (add_camera LINUXPY (Some (info_card cam)) (filename cam) None cams)
       else detect_linux rest cams)"

text \<open>
  \<open>_detect_cameras\<close>: the registered camera controllers are removed first (outside any
  handler, so a removal that raises ends the detection with its exception and no cameras);
  then the three probes fill the dictionary \<open>cameras\<close>, each inside its own handler.
\<close>

definition detect_cameras :: "env \<Rightarrow> state \<Rightarrow> bool \<times> (string \<times> Camera) list \<times> state" where
  "detect_cameras e s =
    (case for_each (remove_camera_controller e) (map fst (camera_controllers s)) s of
       (True, s1) \<Rightarrow> (True, [], s1)
     | (False, s1) \<Rightarrow>
    (let (cams1, s2) =
           (case linux_devices e of
              None \<Rightarrow> ([], log_msg (DetectError ''linuxpy'') s1)
            | Some devs \<Rightarrow>
               (case detect_linux devs [] of
                  (True, cams) \<Rightarrow> (cams, log_msg (DetectError ''linuxpy'') s1)
                | (False, cams) \<Rightarrow> (cams, s1)));
         (cams2, s3) =
           (case gphoto2_cameras e of
              None \<Rightarrow> (cams1, log_msg (DetectError ''gphoto2'') s2)
            | Some found \<Rightarrow>
               (fold (\<lambda>c. add_camera GPHOTO2 (Some (fst c)) (snd c) None) found cams1, s2))
     in if available e PICAMERA2 then
          (case picamera2 e of
             None \<Rightarrow> (False, cams2, log_msg (DetectError ''picamera2'') s3)
           | Some (picam_name, location) \<Rightarrow>
              (False,
               add_camera PICAMERA2 picam_name (''/dev/video0'' @ location) (Some []) cams2, s3))
        else (False, cams2, s3)))"

subsection \<open>cleanup_and_exit\<close>

text \<open>The body of the loop over \<open>list(_endstop_controllers.items())\<close>: cleanup under a
  handler, then \<open>pop\<close>.\<close>

definition cleanup_endstop :: "env \<Rightarrow> string \<Rightarrow> state \<Rightarrow> state" where
  "cleanup_endstop e n s =
    (let s' = attempt e (Cleanup EndstopCat n) s
     in s'\<lparr>endstop_controllers := AList.delete n (endstop_controllers s')\<rparr>)"

definition cleanup_and_exit :: "env \<Rightarrow> state \<Rightarrow> state" where
  "cleanup_and_exit e s =
    (let s1 = fold (\<lambda>n. attempt e (Cleanup CameraCat n)) (map fst (camera_controllers s)) s;
         s2 = fold (cleanup_endstop e) (map fst (endstop_controllers s1)) s1;
         s3 = fold (\<lambda>n. attempt e (TurnOff n)) (map fst (light_controllers s2)) s2
     in cleanup_all_pins s3)"

subsection \<open>initialize\<close>

definition section_entries :: "string \<Rightarrow> 'a cfg_section \<Rightarrow> state \<Rightarrow> (string \<times> 'a) list \<times> state" where
  "section_entries key sec s =
    (case sec of
       Absent \<Rightarrow> ([], s)
     | NotADict \<Rightarrow> ([], log_msg (InvalidSection key) s)
     | Entries xs \<Rightarrow> (xs, s))"

text \<open>
  The block under \<open>if _scanner_device.initialized\<close>. The three removal loops have no
  handler, so an exception of \<open>remove\<close> leaves the block (and \<open>initialize\<close>) at once;
  the endstop loop catches and logs the exception of each cleanup.
\<close>

definition teardown :: "env \<Rightarrow> state \<Rightarrow> bool \<times> state" where
  "teardown e s =
    (case for_each (remove_motor_controller e) (map fst (motor_controllers s)) s of
       (True, s1) \<Rightarrow> (True, s1)
     | (False, s1) \<Rightarrow>
    (case for_each (remove_light_controller e) (map fst (light_controllers s1)) s1 of
       (True, s2) \<Rightarrow> (True, s2)
     | (False, s2) \<Rightarrow>
    (case for_each (remove_camera_controller e) (map fst (camera_controllers s2)) s2 of
       (True, s3) \<Rightarrow> (True, s3)
     | (False, s3) \<Rightarrow>
        (False,
         cleanup_all_pins (fold (cleanup_endstop e) (map fst (endstop_controllers s3)) s3)))))"

fun cameras_from_config ::
  "(string \<times> camera_entry) list \<Rightarrow> (string \<times> Camera) list \<times> state \<Rightarrow> (string \<times> Camera) list \<times> state" where
  "cameras_from_config [] (objs, s) = (objs, s)"
| "cameras_from_config ((cam_nm, CameraNotADict) # rest) (objs, s) =
    cameras_from_config rest (objs, log_msg (SkippedCamera cam_nm) s)"
| "cameras_from_config ((cam_nm, CameraData None path st) # rest) (objs, s) =
    cameras_from_config rest (objs, log_msg (SkippedCamera cam_nm) s)"
| "cameras_from_config ((cam_nm, CameraData (Some t) path st) # rest) (objs, s) =
    cameras_from_config rest
      (AList.update cam_nm \<lparr>cam_type = t, cam_name = cam_nm, cam_path = path, cam_settings = Some st\<rparr> objs, s)"

definition init_camera :: "env \<Rightarrow> string \<times> Camera \<Rightarrow> state \<Rightarrow> state" where
  "init_camera e entry s =
    (if \<not> available e (cam_type (snd entry)) then log_msg (DependencyMissing (fst entry)) s
     else (case create_camera_controller e (snd entry) s of
             (True, s') \<Rightarrow> log_msg (ActionFailed (Create CameraCat (fst entry))) s'
           | (False, s') \<Rightarrow> s'))"

definition init_motor :: "env \<Rightarrow> string \<times> Motor \<Rightarrow> state \<Rightarrow> state" where
  "init_motor e entry s =
    (case create_motor_controller e (snd entry) s of
       (True, s') \<Rightarrow> log_msg (ActionFailed (Create MotorCat (fst entry))) s'
     | (False, s') \<Rightarrow> s')"

definition init_light :: "env \<Rightarrow> string \<times> Light \<Rightarrow> state \<Rightarrow> state" where
  "init_light e entry s =
    (case create_light_controller e (snd entry) s of
       (True, s') \<Rightarrow> log_msg (ActionFailed (Create LightCat (fst entry))) s'
     | (False, s') \<Rightarrow> s')"

text \<open>
  One round of the endstop loop. The entry is skipped, with the exception logged, when the
  data has no \<open>.get\<close>, when \<open>get_motor_controller\<close> finds no controller (the ValueError of
  the source), or when the constructor of the endstop controller raises. A listener that
  fails to start is logged after the endstop has been registered.
\<close>

definition init_endstop ::
  "env \<Rightarrow> string \<times> endstop_entry \<Rightarrow> (string \<times> Endstop) list \<times> state \<Rightarrow> (string \<times> Endstop) list \<times> state" where
  "init_endstop e entry acc =
    (case acc of (objs, s) \<Rightarrow>
      (case snd entry of
         EndstopNotADict \<Rightarrow> (objs, log_msg (EndstopError (fst entry) AttributeError) s)
       | EndstopData settings \<Rightarrow>
          (case get_motor_controller (motor_name settings) s of
             None \<Rightarrow> (objs, log_msg (EndstopError (fst entry) ValueError) s)
           | Some controller \<Rightarrow>
              (case perform e (Create EndstopCat (fst entry)) s of
                 (True, s1) \<Rightarrow> (objs, log_msg (EndstopError (fst entry) RuntimeError) s1)
               | (False, s1) \<Rightarrow>
                  (let endstop = \<lparr>e_name = fst entry, e_settings = settings\<rparr>;
                       s2 = s1\<lparr>endstop_controllers :=
                               AList.update (fst entry)
                                 \<lparr>ec_endstop = endstop, ec_controller = controller\<rparr>
                                 (endstop_controllers s1)\<rparr>
                   in (AList.update (fst entry) endstop objs,
                       (case perform e (StartListener (fst entry)) s2 of
                          (True, s3) \<Rightarrow> log_msg (EndstopError (fst entry) RuntimeError) s3
                        | (False, s3) \<Rightarrow> s3)))))))"

definition parse_enum :: "string list \<Rightarrow> string option \<Rightarrow> state \<Rightarrow> string option \<times> state" where
  "parse_enum allowed v s =
    (case v of
       None \<Rightarrow> (None, s)
     | Some x \<Rightarrow>
        if x = [] then (None, s)
        else if x \<in> set allowed then (Some x, s)
        else (None, log_msg (InvalidEnum x) s))"

text \<open>
  \<open>initialize\<close>. The boolean of the result tells whether an exception left the function:
  that of a removal in the teardown block or at the start of the detection, the only calls
  outside a handler. The module state is then as the exception found it.
\<close>

definition initialize :: "env \<Rightarrow> config option \<Rightarrow> bool \<Rightarrow> state \<Rightarrow> bool \<times> state" where
  "initialize e cfg detect s0 =
    (let conf = (case cfg of None \<Rightarrow> model_dump e (scanner_device s0) | Some c \<Rightarrow> c);
         (config_cameras, sa) = section_entries ''cameras'' (cfg_cameras conf) s0;
         (config_motors, sb) = section_entries ''motors'' (cfg_motors conf) sa;
         (config_lights, sc) = section_entries ''lights'' (cfg_lights conf) sb;
         (config_endstops, sd) = section_entries ''endstops'' (cfg_endstops conf) sc
     in case (if initialized (scanner_device sd) then teardown e sd else (False, sd)) of
          (True, s1) \<Rightarrow> (True, s1)
        | (False, s1) \<Rightarrow>
       (case (if detect \<or> config_cameras = [] then detect_cameras e s1
              else (False, cameras_from_config config_cameras ([], s1))) of
          (True, camera_objects, s2) \<Rightarrow> (True, s2)
        | (False, camera_objects, s2) \<Rightarrow>
       (let motor_objects = map (\<lambda>(n, st). (n, \<lparr>m_name = n, m_settings = st\<rparr>)) config_motors;
            light_objects = map (\<lambda>(n, st). (n, \<lparr>l_name = n, l_settings = st\<rparr>)) config_lights;
            s3 = fold (init_camera e) camera_objects s2;
            s4 = fold (init_motor e) motor_objects s3;
            (endstop_objects, s5) = fold (init_endstop e) config_endstops ([], s4);
            s6 = fold (init_light e) light_objects s5;
            s7 = fold (\<lambda>n. attempt e (TurnOn n)) (map fst (light_controllers s6)) s6;
            (model_v, s8) = parse_enum (scanner_models e) (cfg_model conf) s7;
            (shield_v, s9) = parse_enum (scanner_shields e) (cfg_shield conf) s8
        in (False,
            (s9\<lparr>scanner_device :=
                 \<lparr>device_name = (case cfg_name conf of None \<Rightarrow> device_name (scanner_device s9)
                                  | Some n \<Rightarrow> n),
                  model = model_v, shield = shield_v,
                  cameras = camera_objects, motors = motor_objects, lights = light_objects,
                  endstops = endstop_objects, initialized = True\<rparr>\<rparr>)
             \<lparr>trace := trace s9 @ [Broadcast]\<rparr>))))"

text \<open>The states the program can be in: the module's initial state, and any state after a
  call of \<open>initialize\<close> (returned or left by an exception) or of \<open>cleanup_and_exit\<close> in
  some environment.\<close>

inductive reachable :: "state \<Rightarrow> bool" where
  reachable_initial: "reachable initial_state"
| reachable_initialize: "reachable s \<Longrightarrow> reachable (snd (initialize e cfg detect s))"
| reachable_cleanup: "reachable s \<Longrightarrow> reachable (cleanup_and_exit e s)"

subsection \<open>Predicates on traces and states\<close>

fun is_create :: "action \<Rightarrow> bool" where
  "is_create (Create c n) = True"
| "is_create a = False"

fun is_cleanup :: "action \<Rightarrow> bool" where
  "is_cleanup (Cleanup c n) = True"
| "is_cleanup a = False"

text \<open>Calls on an individual controller, as opposed to the global pin release and the
  status broadcast.\<close>

fun is_controller_action :: "action \<Rightarrow> bool" where
  "is_controller_action ReleasePins = False"
| "is_controller_action Broadcast = False"
| "is_controller_action a = True"

text \<open>Dictionary keys are unique.\<close>

definition wf_state :: "state \<Rightarrow> bool" where
  "wf_state s \<longleftrightarrow>
     distinct (map fst (camera_controllers s)) \<and> distinct (map fst (motor_controllers s)) \<and>
     distinct (map fst (light_controllers s)) \<and> distinct (map fst (endstop_controllers s))"

text \<open>A state with its log forgotten: two states with the same \<open>unlog\<close> differ in what
  was logged only.\<close>

definition unlog :: "state \<Rightarrow> state" where
  "unlog s = s\<lparr>logged := []\<rparr>"

text \<open>The failures that a sequence of calls leaves in the log.\<close>

definition failures :: "env \<Rightarrow> action list \<Rightarrow> log_entry list" where
  "failures e as = map ActionFailed (filter (fails e) as)"

text \<open>No removal of a registered motor, light or camera controller raises.\<close>

definition removals_return :: "env \<Rightarrow> state \<Rightarrow> bool" where
  "removals_return e s \<longleftrightarrow>
     list_all (\<lambda>n. \<not> fails e (Cleanup MotorCat n)) (map fst (motor_controllers s)) \<and>
     list_all (\<lambda>n. \<not> fails e (Cleanup LightCat n)) (map fst (light_controllers s)) \<and>
     list_all (\<lambda>n. \<not> fails e (Cleanup CameraCat n)) (map fst (camera_controllers s))"


subsection \<open>An example installation\<close>

text \<open>
  The scanner of tests/routers/test\_device\_router.py: one external camera, one motor, one
  light and one endstop bound to the motor; and an environment in which every call
  succeeds, whose \<open>model_dump\<close> returns the descriptors of the device.
\<close>

definition dump_device :: "ScannerDevice \<Rightarrow> config" where
  "dump_device d =
    \<lparr>cfg_name = Some (device_name d), cfg_model = model d, cfg_shield = shield d,
     cfg_cameras = Entries (map (\<lambda>(n, c). (n, CameraData (Some (cam_type c)) (cam_path c)
                              (case cam_settings c of None \<Rightarrow> [] | Some st \<Rightarrow> st))) (cameras d)),
     cfg_motors = Entries (map (\<lambda>(n, m). (n, m_settings m)) (motors d)),
     cfg_lights = Entries (map (\<lambda>(n, l). (n, l_settings l)) (lights d)),
     cfg_endstops = Entries (map (\<lambda>(n, en). (n, EndstopData (e_settings en))) (endstops d))\<rparr>"

definition env_ok :: env where
  "env_ok =
    \<lparr>fails = (\<lambda>a. False), get_status = (\<lambda>c n. Inr ''ok''), available = (\<lambda>t. True),
     linux_devices = Some [], gphoto2_cameras = Some [], picamera2 = None,
     scanner_models = [''classic'', ''mini''], scanner_shields = [''greenshield'', ''blackshield''],
     model_dump = dump_device\<rparr>"

definition demo_config :: config where
  "demo_config =
    \<lparr>cfg_name = Some ''scanner'', cfg_model = Some ''classic'', cfg_shield = Some ''greenshield'',
     cfg_cameras = Entries [(''cam'', CameraData (Some EXTERNAL) ''/dev/null'' [])],
     cfg_motors = Entries [(''motor'', [(''direction_pin'', 1), (''enable_pin'', 2),
                                        (''step_pin'', 3), (''steps_per_rotation'', 200)])],
     cfg_lights = Entries [(''light'', [(''pin'', 5)])],
     cfg_endstops = Entries [(''endstop'',
        EndstopData \<lparr>pin = 4, angular_position = 0, motor_name = ''motor''\<rparr>)]\<rparr>"

definition demo_state :: state where
  "demo_state = snd (initialize env_ok (Some demo_config) False initial_state)"


definition env_motor_cleanup_fails :: env where
  "env_motor_cleanup_fails = env_ok\<lparr>fails := (\<lambda>a. a = Cleanup MotorCat ''motor'')\<rparr>"

text \<open>The second state continues the trace of the first with calls that all satisfy \<open>P\<close>.\<close>

definition extends_trace :: "(action \<Rightarrow> bool) \<Rightarrow> state \<Rightarrow> state \<Rightarrow> bool" where
  "extends_trace P s s' \<longleftrightarrow> (\<exists>ev. trace s' = trace s @ ev \<and> list_all P ev)"

text \<open>The calls of the teardown block of \<open>initialize\<close>, in the order of the code.\<close>

definition teardown_events :: "state \<Rightarrow> action list" where
  "teardown_events s =
    map (Cleanup MotorCat) (map fst (motor_controllers s)) @
    map (Cleanup LightCat) (map fst (light_controllers s)) @
    map (Cleanup CameraCat) (map fst (camera_controllers s)) @
    map (Cleanup EndstopCat) (map fst (endstop_controllers s)) @
    [ReleasePins]"

text \<open>The calls of \<open>cleanup_and_exit\<close>, in the order of the code.\<close>

definition exit_events :: "state \<Rightarrow> action list" where
  "exit_events s =
    map (Cleanup CameraCat) (map fst (camera_controllers s)) @
    map (Cleanup EndstopCat) (map fst (endstop_controllers s)) @
    map TurnOff (map fst (light_controllers s)) @
    [ReleasePins]"

text \<open>The dictionary a section is read as.\<close>

definition entries_of :: "'a cfg_section \<Rightarrow> (string \<times> 'a) list" where
  "entries_of sec = (case sec of Entries xs \<Rightarrow> xs | _ \<Rightarrow> [])"

text \<open>The configuration a call of \<open>initialize\<close> works from.\<close>

definition effective_config :: "env \<Rightarrow> config option \<Rightarrow> state \<Rightarrow> config" where
  "effective_config e cfg s = (case cfg of None \<Rightarrow> model_dump e (scanner_device s) | Some c \<Rightarrow> c)"

text \<open>
  The stages of a call of \<open>initialize\<close>, named so that statements can refer to them: the
  state after the four sections are read, the outcome of the teardown block, the outcome of
  finding the cameras (detected or configured), the state when the endstops are bound
  (cameras and motors created), the endstop loop, and the state after the lights are created
  and turned on. The call reaches the binding of the endstops when neither the teardown nor
  the detection was left by an exception.
\<close>

definition after_sections :: "env \<Rightarrow> config option \<Rightarrow> state \<Rightarrow> state" where
  "after_sections e cfg s =
    (let conf = effective_config e cfg s;
         sa = snd (section_entries ''cameras'' (cfg_cameras conf) s);
         sb = snd (section_entries ''motors'' (cfg_motors conf) sa);
         sc = snd (section_entries ''lights'' (cfg_lights conf) sb)
     in snd (section_entries ''endstops'' (cfg_endstops conf) sc))"

definition torn_down :: "env \<Rightarrow> config option \<Rightarrow> state \<Rightarrow> bool \<times> state" where
  "torn_down e cfg s =
    (if initialized (scanner_device (after_sections e cfg s))
     then teardown e (after_sections e cfg s) else (False, after_sections e cfg s))"

definition after_teardown :: "env \<Rightarrow> config option \<Rightarrow> state \<Rightarrow> state" where
  "after_teardown e cfg s = snd (torn_down e cfg s)"

definition found ::
  "env \<Rightarrow> config option \<Rightarrow> bool \<Rightarrow> state \<Rightarrow> bool \<times> (string \<times> Camera) list \<times> state" where
  "found e cfg detect s =
    (if detect \<or> entries_of (cfg_cameras (effective_config e cfg s)) = []
     then detect_cameras e (after_teardown e cfg s)
     else (False, cameras_from_config (entries_of (cfg_cameras (effective_config e cfg s)))
            ([], after_teardown e cfg s)))"

definition found_cameras ::
  "env \<Rightarrow> config option \<Rightarrow> bool \<Rightarrow> state \<Rightarrow> (string \<times> Camera) list \<times> state" where
  "found_cameras e cfg detect s = snd (found e cfg detect s)"

definition reaches_binding :: "env \<Rightarrow> config option \<Rightarrow> bool \<Rightarrow> state \<Rightarrow> bool" where
  "reaches_binding e cfg detect s \<longleftrightarrow>
     \<not> fst (torn_down e cfg s) \<and> \<not> fst (found e cfg detect s)"

definition motor_objects_of :: "config \<Rightarrow> (string \<times> Motor) list" where
  "motor_objects_of conf =
    map (\<lambda>(n, st). (n, \<lparr>m_name = n, m_settings = st\<rparr>)) (entries_of (cfg_motors conf))"

definition light_objects_of :: "config \<Rightarrow> (string \<times> Light) list" where
  "light_objects_of conf =
    map (\<lambda>(n, st). (n, \<lparr>l_name = n, l_settings = st\<rparr>)) (entries_of (cfg_lights conf))"

definition at_binding :: "env \<Rightarrow> config option \<Rightarrow> bool \<Rightarrow> state \<Rightarrow> state" where
  "at_binding e cfg detect s =
    fold (init_motor e) (motor_objects_of (effective_config e cfg s))
      (fold (init_camera e) (fst (found_cameras e cfg detect s))
         (snd (found_cameras e cfg detect s)))"

definition bound_endstops ::
  "env \<Rightarrow> config option \<Rightarrow> bool \<Rightarrow> state \<Rightarrow> (string \<times> Endstop) list \<times> state" where
  "bound_endstops e cfg detect s =
    fold (init_endstop e) (entries_of (cfg_endstops (effective_config e cfg s)))
      ([], at_binding e cfg detect s)"

definition light_phase :: "env \<Rightarrow> (string \<times> Light) list \<Rightarrow> state \<Rightarrow> state" where
  "light_phase e light_objects s5 =
    (let s6 = fold (init_light e) light_objects s5
     in fold (\<lambda>n. attempt e (TurnOn n)) (map fst (light_controllers s6)) s6)"

definition after_lights :: "env \<Rightarrow> config option \<Rightarrow> bool \<Rightarrow> state \<Rightarrow> state" where
  "after_lights e cfg detect s =
    light_phase e (light_objects_of (effective_config e cfg s))
      (snd (bound_endstops e cfg detect s))"

subsection \<open>Status queries and detection examples\<close>

text \<open>Every live camera, motor and light controller answers its status query.\<close>

definition all_status_ok :: "env \<Rightarrow> state \<Rightarrow> bool" where
  "all_status_ok e s \<longleftrightarrow>
     list_all (\<lambda>n. \<not> isl (get_status e CameraCat n)) (map fst (camera_controllers s)) \<and>
     list_all (\<lambda>n. \<not> isl (get_status e MotorCat n)) (map fst (motor_controllers s)) \<and>
     list_all (\<lambda>n. \<not> isl (get_status e LightCat n)) (map fst (light_controllers s))"

text \<open>The status queries of a call of \<open>get_device_info\<close>, in the order they are made, and
  the exception of the first one that raises.\<close>

definition status_queries :: "state \<Rightarrow> (category \<times> string) list" where
  "status_queries s =
     map (Pair CameraCat) (map fst (camera_controllers s)) @
     map (Pair MotorCat) (map fst (motor_controllers s)) @
     map (Pair LightCat) (map fst (light_controllers s))"

definition first_status_error :: "env \<Rightarrow> state \<Rightarrow> py_error" where
  "first_status_error e s =
     projl (hd (filter isl (map (\<lambda>q. get_status e (fst q) (snd q)) (status_queries s))))"

text \<open>The dictionary of the answers of one registry.\<close>

definition status_dict :: "env \<Rightarrow> category \<Rightarrow> string list \<Rightarrow> (string \<times> string) list" where
  "status_dict e c ns = map (\<lambda>n. (n, projr (get_status e c n))) ns"

text \<open>An environment in which the status query of every motor controller raises.\<close>

definition env_motor_status_fails :: env where
  "env_motor_status_fails =
     env_ok\<lparr>get_status := (\<lambda>c n. if c = MotorCat then Inl RuntimeError else Inr ''ok'')\<rparr>"

text \<open>An environment in which the status queries of the camera and of the motor controllers
  raise, with different exceptions.\<close>

definition env_status_fails :: env where
  "env_status_fails =
     env_ok\<lparr>get_status := (\<lambda>c n. if c = CameraCat then Inl ValueError
                                  else if c = MotorCat then Inl RuntimeError else Inr ''ok'')\<rparr>"

text \<open>Environments in which the V4L2 probe finds that many devices, all reporting the card
  name camX.\<close>

definition camx_device :: linux_device where
  "camx_device = \<lparr>opens = True, info_card = ''camX'', filename = ''/dev/video0''\<rparr>"

definition env_camx :: "nat \<Rightarrow> env" where
  "env_camx k = env_ok\<lparr>linux_devices := Some (replicate k camx_device)\<rparr>"

text \<open>An environment in which each of the three back ends finds one camera, all three
  reporting the name camX.\<close>

definition env_three_backends :: env where
  "env_three_backends =
     env_ok\<lparr>linux_devices := Some [camx_device], gphoto2_cameras := Some [(''camX'', ''usb:001,004'')],
            picamera2 := Some (Some ''camX'', ''0'')\<rparr>"

text \<open>
  What the three probes of \<open>_detect_cameras\<close> report, in the order the cameras are stored:
  back end, reported name, path and settings of every V4L2 device opened before the first one
  that fails to open (the ISP nodes left out), of every gphoto2 camera, and of the Picamera2
  camera; a probe that raises reports nothing more.
\<close>

fun linux_reported :: "linux_device list \<Rightarrow> linux_device list" where
  "linux_reported [] = []"
| "linux_reported (cam # rest) =
    (if \<not> opens cam then []
     else if info_card cam \<notin> {''unicam'', ''bcm2835-isp''} then cam # linux_reported rest
     else linux_reported rest)"

definition detected :: "env \<Rightarrow> (CameraType \<times> string option \<times> string \<times> settings_dict option) list" where
  "detected e =
     (case linux_devices e of
        None \<Rightarrow> []
      | Some devs \<Rightarrow> map (\<lambda>cam. (LINUXPY, Some (info_card cam), filename cam, None))
                       (linux_reported devs)) @
     (case gphoto2_cameras e of
        None \<Rightarrow> []
      | Some gphoto \<Rightarrow> map (\<lambda>c. (GPHOTO2, Some (fst c), snd c, None)) gphoto) @
     (if available e PICAMERA2 then
        (case picamera2 e of
           None \<Rightarrow> []
         | Some (picam_name, location) \<Rightarrow>
            [(PICAMERA2, picam_name, ''/dev/video0'' @ location, Some [])])
      else [])"

text \<open>Storing one reported camera in the dictionary \<open>cameras\<close>.\<close>

definition store_detected ::
  "CameraType \<times> string option \<times> string \<times> settings_dict option \<Rightarrow> (string \<times> Camera) list
    \<Rightarrow> (string \<times> Camera) list" where
  "store_detected d cams = add_camera (fst d) (fst (snd d)) (fst (snd (snd d))) (snd (snd (snd d))) cams"

text \<open>The cameras accumulated after one device reporting camX has been found.\<close>

definition camx_cams :: "(string \<times> Camera) list" where
  "camx_cams = add_camera LINUXPY (Some ''camX'') ''/dev/video0'' None []"

text \<open>What holds of every reachable state: registry keys are unique, and a device that has
  never been initialized has no controllers.\<close>

definition consistent :: "state \<Rightarrow> bool" where
  "consistent s \<longleftrightarrow>
     wf_state s \<and>
     (initialized (scanner_device s) \<or>
      (camera_controllers s = [] \<and> motor_controllers s = [] \<and> light_controllers s = [] \<and>
       endstop_controllers s = []))"

subsection \<open>Endstop entries that are skipped\<close>

text \<open>The configuration without the endstop entries of a given name.\<close>

definition without_endstop :: "string \<Rightarrow> config \<Rightarrow> config" where
  "without_endstop n conf =
     conf\<lparr>cfg_endstops :=
       (case cfg_endstops conf of
          Entries xs \<Rightarrow> Entries (filter (\<lambda>x. fst x \<noteq> n) xs)
        | other \<Rightarrow> other)\<rparr>"

text \<open>The calls a state has seen beyond those of an earlier state.\<close>

definition new_calls :: "state \<Rightarrow> state \<Rightarrow> action list" where
  "new_calls s s' = drop (length (trace s)) (trace s')"

text \<open>The example installation with a second endstop, bound to a motor that is not
  configured.\<close>

definition orphan_config :: config where
  "orphan_config =
     demo_config\<lparr>cfg_endstops := Entries
       [(''orphan'', EndstopData \<lparr>pin = 6, angular_position = 90, motor_name = ''missing''\<rparr>),
        (''endstop'', EndstopData \<lparr>pin = 4, angular_position = 0, motor_name = ''motor''\<rparr>)]\<rparr>"

section \<open>Properties\<close>

subsection \<open>Sensor estimation and EXIF intrinsics\<close>

lemma ratio_match_find:
  "\<forall>s \<in> set ss. native_height_px s \<noteq> 0 \<Longrightarrow>
   ratio_match t w h ss =
     Inr (List.find (\<lambda>s. \<bar>of_int (native_width_px s) / of_int (native_height_px s) - t\<bar> < 1 / 100
              \<and> w \<le> native_width_px s \<and> h \<le> native_height_px s) ss)"
  by (induction ss) (auto simp: Let_def)

lemma exact_match_find:
  "exact_match w h ss = List.find (\<lambda>s. native_width_px s = w \<and> native_height_px s = h) ss"
  by (induction ss) auto

text \<open>With a non-zero height the estimate is the exact native match if there is one, and
  otherwise the first sensor in table order that passes the aspect-ratio and size test.\<close>

lemma estimate_sensor_nonzero_height:
  assumes "height \<noteq> 0"
  shows "estimate_sensor_from_resolution width height =
     Inr (case List.find (\<lambda>s. native_width_px s = width \<and> native_height_px s = height)
                 (map snd SENSOR_DATABASE) of
            Some s \<Rightarrow> Some s
          | None \<Rightarrow> List.find (\<lambda>s. \<bar>of_int (native_width_px s) / of_int (native_height_px s)
                                       - (of_int width / of_int height :: rat)\<bar> < 1 / 100
                                   \<and> width \<le> native_width_px s \<and> height \<le> native_height_px s)
                       (map snd SENSOR_DATABASE))"
proof -
  have nz: "\<forall>s \<in> set (map snd SENSOR_DATABASE). native_height_px s \<noteq> 0"
    by (simp add: SENSOR_DATABASE_def)
  show ?thesis
    unfolding estimate_sensor_from_resolution_def estimate_sensor_from_resolution_in_def
    using assms by (simp add: exact_match_find ratio_match_find [OF nz] split: option.split)
qed

text \<open>
  Claim C8. estimate_sensor_from_resolution is claimed to return a sensor or no sensor for
  every (width, height). At height 0 with no exact native match the division
  \<open>width / height\<close> raises ZeroDivisionError before any sensor is compared, so the call
  returns nothing: here at (100, 0).
\<close>

theorem estimate_sensor_zero_height:
  "estimate_sensor_from_resolution 100 0 = Inl ZeroDivisionError"
  by code_simp


text \<open>
  Claim C10. When piexif cannot be imported, build_camera_intrinsics_exif returns the empty
  dictionary for every camera name and size, also for imx519, whose sensor is known and has a
  default focal length; that result is the one returned for an unknown camera, so the two
  cases look the same to the caller.
\<close>

theorem build_exif_without_piexif:
  "build_camera_intrinsics_exif_in aliases db False camera_name image_width image_height = []
   \<and> (\<exists>sensor focal. get_sensor_for_camera ''imx519'' = Some sensor
          \<and> default_focal_length_mm sensor = Some focal)
   \<and> build_camera_intrinsics_exif False ''imx519'' 4656 3496
       = build_camera_intrinsics_exif True ''unknown_camera'' 4656 3496"
proof (intro conjI)
  show "build_camera_intrinsics_exif_in aliases db False camera_name image_width image_height = []"
    by (simp add: build_camera_intrinsics_exif_in_def split: option.split)
  have "get_sensor_for_camera ''imx519'' = Some (snd (SENSOR_DATABASE ! 0))"
    by code_simp
  moreover have "default_focal_length_mm (snd (SENSOR_DATABASE ! 0)) = Some (428 / 100)"
    by (simp add: SENSOR_DATABASE_def)
  ultimately show "\<exists>sensor focal. get_sensor_for_camera ''imx519'' = Some sensor
          \<and> default_focal_length_mm sensor = Some focal"
    by blast
  show "build_camera_intrinsics_exif False ''imx519'' 4656 3496
       = build_camera_intrinsics_exif True ''unknown_camera'' 4656 3496"
    by code_simp
qed

text \<open>
  Claim C6, as stated: whenever the sensor is found and has a default focal length the
  intrinsics are returned. This fails when piexif cannot be imported: the sensor of imx519
  is found and has the focal length 4.28, and yet the result at 4656 x 3496 is empty.
\<close>

theorem build_exif_claim_counterexample:
  "map_option default_focal_length_mm (get_sensor_for_camera ''imx519'') = Some (Some (428 / 100))
   \<and> build_camera_intrinsics_exif False ''imx519'' 4656 3496 = []"
  by code_simp

text \<open>
  Claim C6, amended. build_camera_intrinsics_exif returns the empty dictionary when the
  alias-resolved sensor is not found or has no default focal length; otherwise, when piexif
  can be imported, it returns the sensor's rational focal length, its 35 mm equivalent and
  the two output pixel dimensions image_width and image_height (not the native ones). With
  piexif importable, ("imx519", 4656, 3496) gives (428, 100), 33 and (4656, 3496), and
  ("unknown_camera", 4656, 3496) gives the empty dictionary.
\<close>

theorem build_exif_spec:
  "(get_sensor_for_camera_in aliases db camera_name = None \<longrightarrow>
      build_camera_intrinsics_exif_in aliases db piexif_ok camera_name image_width image_height = [])
   \<and> (\<forall>sensor. get_sensor_for_camera_in aliases db camera_name = Some sensor
         \<and> default_focal_length_mm sensor = None \<longrightarrow>
      build_camera_intrinsics_exif_in aliases db piexif_ok camera_name image_width image_height = [])
   \<and> (\<forall>sensor focal. get_sensor_for_camera_in aliases db camera_name = Some sensor
         \<and> default_focal_length_mm sensor = Some focal \<longrightarrow>
      build_camera_intrinsics_exif_in aliases db True camera_name image_width image_height =
        [(''Exif'',
          [(FocalLength, Rational (py_round (focal * 100), 100)),
           (FocalLengthIn35mmFilm, Short (calculate_35mm_equivalent focal (sensor_width_mm sensor))),
           (PixelXDimension, Short image_width),
           (PixelYDimension, Short image_height)])])
   \<and> build_camera_intrinsics_exif True ''imx519'' 4656 3496 =
        [(''Exif'', [(FocalLength, Rational (428, 100)), (FocalLengthIn35mmFilm, Short 33),
                     (PixelXDimension, Short 4656), (PixelYDimension, Short 3496)])]
   \<and> build_camera_intrinsics_exif True ''unknown_camera'' 4656 3496 = []"
proof (intro conjI)
  show "build_camera_intrinsics_exif True ''imx519'' 4656 3496 =
        [(''Exif'', [(FocalLength, Rational (428, 100)), (FocalLengthIn35mmFilm, Short 33),
                     (PixelXDimension, Short 4656), (PixelYDimension, Short 3496)])]"
    by code_simp
  show "build_camera_intrinsics_exif True ''unknown_camera'' 4656 3496 = []"
    by code_simp
qed (simp_all add: build_camera_intrinsics_exif_in_def focal_to_rational_def)

theorem build_exif_spec_witness:
  "get_sensor_for_camera_in CAMERA_SENSOR_ALIASES SENSOR_DATABASE ''unknown_camera'' = None
   \<and> build_camera_intrinsics_exif_in CAMERA_SENSOR_ALIASES SENSOR_DATABASE True ''unknown_camera'' 4656 3496 = []
   \<and> (\<exists>sensor. get_sensor_for_camera_in [] no_focal_db ''bare'' = Some sensor
         \<and> default_focal_length_mm sensor = None)
   \<and> build_camera_intrinsics_exif_in [] no_focal_db True ''bare'' 640 480 = []
   \<and> (\<exists>sensor. get_sensor_for_camera_in CAMERA_SENSOR_ALIASES SENSOR_DATABASE ''Arducam_64MP'' = Some sensor
         \<and> default_focal_length_mm sensor = Some (51 / 10) \<and> sensor_width_mm sensor = 645 / 100)
   \<and> build_camera_intrinsics_exif_in CAMERA_SENSOR_ALIASES SENSOR_DATABASE True ''Arducam_64MP'' 2328 1748 =
        [(''Exif'', [(FocalLength, Rational (510, 100)), (FocalLengthIn35mmFilm, Short 28),
                     (PixelXDimension, Short 2328), (PixelYDimension, Short 1748)])]"
proof -
  have a: "get_sensor_for_camera_in CAMERA_SENSOR_ALIASES SENSOR_DATABASE ''unknown_camera'' = None"
    by code_simp
  have b: "get_sensor_for_camera_in [] no_focal_db ''bare'' = Some (snd (hd no_focal_db))"
    by code_simp
  have b': "default_focal_length_mm (snd (hd no_focal_db)) = None"
    by (simp add: no_focal_db_def)
  have c: "get_sensor_for_camera_in CAMERA_SENSOR_ALIASES SENSOR_DATABASE ''Arducam_64MP''
             = Some (snd (SENSOR_DATABASE ! 1))"
    by code_simp
  have c': "default_focal_length_mm (snd (SENSOR_DATABASE ! 1)) = Some (51 / 10)"
     "sensor_width_mm (snd (SENSOR_DATABASE ! 1)) = 645 / 100"
    by (simp_all add: SENSOR_DATABASE_def)
  have r1: "py_round (51 / 10 * 100) = 510" by code_simp
  have r2: "calculate_35mm_equivalent (51 / 10) (645 / 100) = 28" by code_simp
  note t1 = build_exif_spec [of CAMERA_SENSOR_ALIASES SENSOR_DATABASE "''unknown_camera''" True 4656 3496]
  note t2 = build_exif_spec [of "[]" no_focal_db "''bare''" True 640 480]
  note t3 = build_exif_spec [of CAMERA_SENSOR_ALIASES SENSOR_DATABASE "''Arducam_64MP''" True 2328 1748]
  from t1 have "get_sensor_for_camera_in CAMERA_SENSOR_ALIASES SENSOR_DATABASE ''unknown_camera'' = None \<longrightarrow>
      build_camera_intrinsics_exif_in CAMERA_SENSOR_ALIASES SENSOR_DATABASE True ''unknown_camera'' 4656 3496 = []"
    by (rule conjunct1)
  with a have g1: "build_camera_intrinsics_exif_in CAMERA_SENSOR_ALIASES SENSOR_DATABASE True ''unknown_camera'' 4656 3496 = []"
    by blast
  from t2 [THEN conjunct2, THEN conjunct1, rule_format, OF conjI [OF b b']] have g2: "build_camera_intrinsics_exif_in [] no_focal_db True ''bare'' 640 480 = []"
    .
  from t3 [THEN conjunct2, THEN conjunct2, THEN conjunct1, rule_format, OF conjI [OF c c'(1)]] have "build_camera_intrinsics_exif_in CAMERA_SENSOR_ALIASES SENSOR_DATABASE True ''Arducam_64MP'' 2328 1748 =
        [(''Exif'',
          [(FocalLength, Rational (py_round (51 / 10 * 100), 100)),
           (FocalLengthIn35mmFilm, Short (calculate_35mm_equivalent (51 / 10) (645 / 100))),
           (PixelXDimension, Short 2328),
           (PixelYDimension, Short 1748)])]"
    by (simp only: c'(2))
  then have g3: "build_camera_intrinsics_exif_in CAMERA_SENSOR_ALIASES SENSOR_DATABASE True ''Arducam_64MP'' 2328 1748 =
        [(''Exif'', [(FocalLength, Rational (510, 100)), (FocalLengthIn35mmFilm, Short 28),
                     (PixelXDimension, Short 2328), (PixelYDimension, Short 1748)])]"
    by (simp only: r1 r2)
  from a b b' c c' g1 g2 g3 show ?thesis by (intro conjI exI) assumption+
qed

section \<open>Properties of the device orchestration\<close>

subsection \<open>Closed forms of the handled loops\<close>

lemma attempt_eq:
  "attempt e a s = s\<lparr>trace := trace s @ [a], logged := logged s @ failures e [a]\<rparr>"
  by (simp add: attempt_def perform_def log_msg_def failures_def)

lemma failures_append: "failures e (xs @ ys) = failures e xs @ failures e ys"
  by (simp add: failures_def)

lemma failures_Nil: "failures e [] = []"
  by (simp add: failures_def)

lemma fold_attempt:
  "fold (\<lambda>n. attempt e (f n)) ns s =
     s\<lparr>trace := trace s @ map f ns, logged := logged s @ failures e (map f ns)\<rparr>"
proof (induction ns arbitrary: s)
  case Nil
  show ?case by (simp add: failures_Nil)
next
  case (Cons n ns)
  have "fold (\<lambda>n. attempt e (f n)) (n # ns) s = fold (\<lambda>n. attempt e (f n)) ns (attempt e (f n) s)"
    by simp
  also have "\<dots> = (attempt e (f n) s)\<lparr>trace := trace (attempt e (f n) s) @ map f ns,
       logged := logged (attempt e (f n) s) @ failures e (map f ns)\<rparr>"
    by (rule Cons.IH)
  also have "\<dots> = s\<lparr>trace := trace s @ map f (n # ns), logged := logged s @ failures e (map f (n # ns))\<rparr>"
    using failures_append [of e "[f n]" "map f ns"] by (simp add: attempt_eq)
  finally show ?case .
qed

lemma delete_filter: "AList.delete n al = filter (\<lambda>p. fst p \<noteq> n) al"
  by (induction al) auto

lemma fold_delete_filter:
  "fold AList.delete ns al = filter (\<lambda>p. fst p \<notin> set ns) al"
proof (induction ns arbitrary: al)
  case Nil
  show ?case by simp
next
  case (Cons n ns)
  have "fold AList.delete (n # ns) al = fold AList.delete ns (AList.delete n al)"
    by simp
  also have "\<dots> = filter (\<lambda>p. fst p \<notin> set ns) (filter (\<lambda>p. fst p \<noteq> n) al)"
    by (simp only: Cons.IH delete_filter)
  also have "\<dots> = filter (\<lambda>p. fst p \<notin> set (n # ns)) al"
    by (auto intro: filter_cong)
  finally show ?case .
qed

lemma fold_delete_all: "fold AList.delete (map fst al) al = []"
  by (simp add: fold_delete_filter)

lemma cleanup_endstop_eq:
  "cleanup_endstop e n s =
     s\<lparr>endstop_controllers := AList.delete n (endstop_controllers s),
       trace := trace s @ [Cleanup EndstopCat n],
       logged := logged s @ failures e [Cleanup EndstopCat n]\<rparr>"
  by (simp add: cleanup_endstop_def attempt_eq Let_def)

lemma fold_cleanup_endstop:
  "fold (cleanup_endstop e) ns s =
     s\<lparr>endstop_controllers := fold AList.delete ns (endstop_controllers s),
       trace := trace s @ map (Cleanup EndstopCat) ns,
       logged := logged s @ failures e (map (Cleanup EndstopCat) ns)\<rparr>"
proof (induction ns arbitrary: s)
  case Nil
  show ?case by (simp add: failures_Nil)
next
  case (Cons n ns)
  let ?t = "cleanup_endstop e n s"
  have "fold (cleanup_endstop e) (n # ns) s = fold (cleanup_endstop e) ns ?t"
    by simp
  also have "\<dots> = ?t\<lparr>endstop_controllers := fold AList.delete ns (endstop_controllers ?t),
       trace := trace ?t @ map (Cleanup EndstopCat) ns,
       logged := logged ?t @ failures e (map (Cleanup EndstopCat) ns)\<rparr>"
    by (rule Cons.IH)
  also have "\<dots> = s\<lparr>endstop_controllers := fold AList.delete (n # ns) (endstop_controllers s),
       trace := trace s @ map (Cleanup EndstopCat) (n # ns),
       logged := logged s @ failures e (map (Cleanup EndstopCat) (n # ns))\<rparr>"
    using failures_append [of e "[Cleanup EndstopCat n]" "map (Cleanup EndstopCat) ns"]
    by (simp add: cleanup_endstop_eq)
  finally show ?case .
qed

lemma cleanup_and_exit_eq:
  "cleanup_and_exit e s =
     s\<lparr>endstop_controllers := [],
       trace := trace s
          @ map (Cleanup CameraCat) (map fst (camera_controllers s))
          @ map (Cleanup EndstopCat) (map fst (endstop_controllers s))
          @ map TurnOff (map fst (light_controllers s))
          @ [ReleasePins],
       logged := logged s
          @ failures e (map (Cleanup CameraCat) (map fst (camera_controllers s)))
          @ failures e (map (Cleanup EndstopCat) (map fst (endstop_controllers s)))
          @ failures e (map TurnOff (map fst (light_controllers s)))\<rparr>"
proof -
  define s1 where "s1 = fold (\<lambda>n. attempt e (Cleanup CameraCat n)) (map fst (camera_controllers s)) s"
  define s2 where "s2 = fold (cleanup_endstop e) (map fst (endstop_controllers s1)) s1"
  define s3 where "s3 = fold (\<lambda>n. attempt e (TurnOff n)) (map fst (light_controllers s2)) s2"
  have c: "cleanup_and_exit e s = cleanup_all_pins s3"
    unfolding cleanup_and_exit_def s1_def s2_def s3_def Let_def ..
  have e1: "s1 = s\<lparr>trace := trace s @ map (Cleanup CameraCat) (map fst (camera_controllers s)),
       logged := logged s @ failures e (map (Cleanup CameraCat) (map fst (camera_controllers s)))\<rparr>"
    unfolding s1_def by (rule fold_attempt)
  have e2: "s2 = s1\<lparr>endstop_controllers := [],
       trace := trace s1 @ map (Cleanup EndstopCat) (map fst (endstop_controllers s1)),
       logged := logged s1 @ failures e (map (Cleanup EndstopCat) (map fst (endstop_controllers s1)))\<rparr>"
    unfolding s2_def by (simp only: fold_cleanup_endstop fold_delete_all)
  have e3: "s3 = s2\<lparr>trace := trace s2 @ map TurnOff (map fst (light_controllers s2)),
       logged := logged s2 @ failures e (map TurnOff (map fst (light_controllers s2)))\<rparr>"
    unfolding s3_def by (rule fold_attempt)
  show ?thesis
    unfolding c cleanup_all_pins_def e3 e2 e1 by simp
qed

subsection \<open>States that differ in the log only\<close>

lemma unlog_sel [simp]:
  "trace (unlog s) = trace s"
  "camera_controllers (unlog s) = camera_controllers s"
  "motor_controllers (unlog s) = motor_controllers s"
  "light_controllers (unlog s) = light_controllers s"
  "endstop_controllers (unlog s) = endstop_controllers s"
  "scanner_device (unlog s) = scanner_device s"
  "logged (unlog s) = []"
  by (simp_all add: unlog_def)

lemma unlog_idem [simp]: "unlog (unlog s) = unlog s"
  by (simp add: unlog_def)

lemma unlog_log_msg [simp]: "unlog (log_msg m s) = unlog s"
  by (simp add: unlog_def log_msg_def)

lemma unlog_eqD:
  assumes "unlog s = unlog t"
  shows "trace s = trace t" "camera_controllers s = camera_controllers t"
    "motor_controllers s = motor_controllers t" "light_controllers s = light_controllers t"
    "endstop_controllers s = endstop_controllers t" "scanner_device s = scanner_device t"
proof -
  show "trace s = trace t" using arg_cong [OF assms, of trace] by simp
  show "camera_controllers s = camera_controllers t"
    using arg_cong [OF assms, of camera_controllers] by simp
  show "motor_controllers s = motor_controllers t"
    using arg_cong [OF assms, of motor_controllers] by simp
  show "light_controllers s = light_controllers t"
    using arg_cong [OF assms, of light_controllers] by simp
  show "endstop_controllers s = endstop_controllers t"
    using arg_cong [OF assms, of endstop_controllers] by simp
  show "scanner_device s = scanner_device t"
    using arg_cong [OF assms, of scanner_device] by simp
qed

lemma unlog_eqI:
  "trace s = trace t \<Longrightarrow> camera_controllers s = camera_controllers t \<Longrightarrow>
   motor_controllers s = motor_controllers t \<Longrightarrow> light_controllers s = light_controllers t \<Longrightarrow>
   endstop_controllers s = endstop_controllers t \<Longrightarrow> scanner_device s = scanner_device t \<Longrightarrow>
   unlog s = unlog t"
  by (simp add: unlog_def)

lemma section_entries_eq:
  "fst (section_entries key sec s) = entries_of sec"
  "unlog (snd (section_entries key sec s)) = unlog s"
  by (simp_all add: section_entries_def entries_of_def split: cfg_section.split)

lemma parse_enum_unlog: "unlog (snd (parse_enum allowed v s)) = unlog s"
  by (simp add: parse_enum_def split: option.split)

lemma parse_enum_fst_unlog: "fst (parse_enum allowed v s) = fst (parse_enum allowed v t)"
  by (simp add: parse_enum_def split: option.split)

subsection \<open>Trace extension\<close>

lemma extends_refl: "extends_trace P s s"
  by (simp add: extends_trace_def)

lemma extends_same: "trace t = trace s \<Longrightarrow> extends_trace P s t"
  by (simp add: extends_trace_def)

lemma extends_trans:
  "extends_trace P s t \<Longrightarrow> extends_trace P t u \<Longrightarrow> extends_trace P s u"
  unfolding extends_trace_def
proof -
  assume "\<exists>ev. trace t = trace s @ ev \<and> list_all P ev" "\<exists>ev. trace u = trace t @ ev \<and> list_all P ev"
  then obtain ev1 ev2 where "trace t = trace s @ ev1" "list_all P ev1"
    "trace u = trace t @ ev2" "list_all P ev2" by blast
  then have "trace u = trace s @ (ev1 @ ev2) \<and> list_all P (ev1 @ ev2)" by simp
  then show "\<exists>ev. trace u = trace s @ ev \<and> list_all P ev" by blast
qed

lemma extends_mono:
  "extends_trace P s t \<Longrightarrow> (\<And>a. P a \<Longrightarrow> Q a) \<Longrightarrow> extends_trace Q s t"
  unfolding extends_trace_def by (auto simp: list_all_iff)

lemma extends_fold:
  assumes "\<And>x s. extends_trace P s (f x s)"
  shows "extends_trace P s (fold f xs s)"
proof (induction xs arbitrary: s)
  case Nil
  show ?case by (simp add: extends_refl)
next
  case (Cons x xs)
  have "extends_trace P s (f x s)" by (rule assms)
  moreover have "extends_trace P (f x s) (fold f xs (f x s))" by (rule Cons.IH)
  ultimately show ?case using extends_trans by simp
qed

lemma extends_fold_snd:
  assumes "\<And>x acc. extends_trace P (snd acc) (snd (f x acc))"
  shows "extends_trace P (snd acc) (snd (fold f xs acc))"
proof (induction xs arbitrary: acc)
  case Nil
  show ?case by (simp add: extends_refl)
next
  case (Cons x xs)
  have "extends_trace P (snd acc) (snd (f x acc))" by (rule assms)
  moreover have "extends_trace P (snd (f x acc)) (snd (fold f xs (f x acc)))" by (rule Cons.IH)
  ultimately show ?case using extends_trans by simp
qed

lemma fold_preserves:
  assumes "\<And>x s. g (f x s) = g s"
  shows "g (fold f xs s) = g s"
  by (induction xs arbitrary: s) (simp_all add: assms)

lemma fold_invariant:
  assumes "\<And>x s. Q s \<Longrightarrow> Q (f x s)" and "Q s"
  shows "Q (fold f xs s)"
  using assms(2) by (induction xs arbitrary: s) (simp_all add: assms(1))

subsection \<open>Loops that an exception can leave\<close>

lemma for_each_Cons_raised: "f x s = (True, s') \<Longrightarrow> for_each f (x # xs) s = (True, s')"
  by simp

lemma for_each_Cons_returned: "f x s = (False, s') \<Longrightarrow> for_each f (x # xs) s = for_each f xs s'"
  by simp

lemma for_each_extends:
  assumes "\<And>x s. extends_trace P s (snd (f x s))"
  shows "extends_trace P s (snd (for_each f xs s))"
proof (induction xs arbitrary: s)
  case Nil
  show ?case by (simp add: extends_refl)
next
  case (Cons x xs)
  obtain b s' where r: "f x s = (b, s')" by (cases "f x s")
  have one: "extends_trace P s s'" using assms [of s x] r by simp
  show ?case
  proof (cases b)
    case True
    with r one show ?thesis by simp
  next
    case False
    with r have "for_each f (x # xs) s = for_each f xs s'" by simp
    with extends_trans [OF one Cons.IH [of s']] show ?thesis by simp
  qed
qed

lemma for_each_preserves:
  assumes "\<And>x s. g (snd (f x s)) = g s"
  shows "g (snd (for_each f xs s)) = g s"
proof (induction xs arbitrary: s)
  case Nil
  show ?case by simp
next
  case (Cons x xs)
  obtain b s' where r: "f x s = (b, s')" by (cases "f x s")
  have one: "g s' = g s" using assms [of x s] r by simp
  show ?case
  proof (cases b)
    case True
    with r one show ?thesis by simp
  next
    case False
    with r have "for_each f (x # xs) s = for_each f xs s'" by simp
    with Cons.IH [of s'] one show ?thesis by simp
  qed
qed

lemma for_each_invariant:
  assumes "\<And>x s. Q s \<Longrightarrow> Q (snd (f x s))" and "Q s"
  shows "Q (snd (for_each f xs s))"
  using assms(2)
proof (induction xs arbitrary: s)
  case Nil
  then show ?case by simp
next
  case (Cons x xs)
  obtain b s' where r: "f x s = (b, s')" by (cases "f x s")
  have one: "Q s'" using assms(1) [OF Cons.prems, of x] r by simp
  show ?case
  proof (cases b)
    case True
    with r one show ?thesis by simp
  next
    case False
    with r have "for_each f (x # xs) s = for_each f xs s'" by simp
    with Cons.IH [OF one] show ?thesis by simp
  qed
qed

lemma for_each_Nil_state: "for_each f [] s = (False, s)"
  by simp

lemma keys_delete: "fst ` set (AList.delete n al) = fst ` set al - {n}"
  by (induction al) auto

lemma distinct_delete: "distinct (map fst al) \<Longrightarrow> distinct (map fst (AList.delete n al))"
  by (simp add: delete_filter distinct_map_filter)


subsection \<open>The removal loops\<close>

lemma remove_motor_controller_cases:
  obtains
    (absent) "n \<notin> fst ` set (motor_controllers s)" "remove_motor_controller e n s = (False, s)"
  | (raises) "n \<in> fst ` set (motor_controllers s)" "fails e (Cleanup MotorCat n)"
      "remove_motor_controller e n s = (True, s\<lparr>trace := trace s @ [Cleanup MotorCat n]\<rparr>)"
  | (removed) "n \<in> fst ` set (motor_controllers s)" "\<not> fails e (Cleanup MotorCat n)"
      "remove_motor_controller e n s =
        (False, s\<lparr>motor_controllers := AList.delete n (motor_controllers s), trace := trace s @ [Cleanup MotorCat n]\<rparr>)"
proof (cases "map_of (motor_controllers s) n")
  case None
  then have "n \<notin> fst ` set (motor_controllers s)" by (simp add: map_of_eq_None_iff)
  moreover from None have "remove_motor_controller e n s = (False, s)" by (simp add: remove_motor_controller_def)
  ultimately show ?thesis by (rule absent)
next
  case (Some c)
  then have k: "n \<in> fst ` set (motor_controllers s)"
    using map_of_eq_None_iff [of "motor_controllers s" n] by simp
  show ?thesis
  proof (cases "fails e (Cleanup MotorCat n)")
    case True
    with Some have "remove_motor_controller e n s = (True, s\<lparr>trace := trace s @ [Cleanup MotorCat n]\<rparr>)"
      by (simp add: remove_motor_controller_def perform_def)
    with k True show ?thesis by (rule raises)
  next
    case False
    with Some have "remove_motor_controller e n s =
        (False, s\<lparr>motor_controllers := AList.delete n (motor_controllers s), trace := trace s @ [Cleanup MotorCat n]\<rparr>)"
      by (simp add: remove_motor_controller_def perform_def)
    with k False show ?thesis by (rule removed)
  qed
qed

lemma remove_motor_controller_trace: "extends_trace (\<lambda>a. a = Cleanup MotorCat n) s (snd (remove_motor_controller e n s))"
  by (cases rule: remove_motor_controller_cases [of n s e]) (simp_all add: extends_trace_def)

lemma remove_motor_controller_frame:
  "camera_controllers (snd (remove_motor_controller e n s)) = camera_controllers s"
  "light_controllers (snd (remove_motor_controller e n s)) = light_controllers s"
  "endstop_controllers (snd (remove_motor_controller e n s)) = endstop_controllers s"
  "scanner_device (snd (remove_motor_controller e n s)) = scanner_device s"
  "logged (snd (remove_motor_controller e n s)) = logged s"
proof -
  show "camera_controllers (snd (remove_motor_controller e n s)) = camera_controllers s"
    by (cases rule: remove_motor_controller_cases [of n s e]) simp_all
  show "light_controllers (snd (remove_motor_controller e n s)) = light_controllers s"
    by (cases rule: remove_motor_controller_cases [of n s e]) simp_all
  show "endstop_controllers (snd (remove_motor_controller e n s)) = endstop_controllers s"
    by (cases rule: remove_motor_controller_cases [of n s e]) simp_all
  show "scanner_device (snd (remove_motor_controller e n s)) = scanner_device s"
    by (cases rule: remove_motor_controller_cases [of n s e]) simp_all
  show "logged (snd (remove_motor_controller e n s)) = logged s"
    by (cases rule: remove_motor_controller_cases [of n s e]) simp_all
qed

lemma remove_motor_controller_distinct:
  "distinct (map fst (motor_controllers s)) \<Longrightarrow> distinct (map fst (motor_controllers (snd (remove_motor_controller e n s))))"
  by (cases rule: remove_motor_controller_cases [of n s e]) (simp_all add: distinct_delete)

lemma all_remove_motor_controller_trace:
  "extends_trace is_cleanup s (snd (for_each (remove_motor_controller e) ns s))"
proof (rule for_each_extends)
  fix x s
  show "extends_trace is_cleanup s (snd (remove_motor_controller e x s))"
    by (rule extends_mono [OF remove_motor_controller_trace]) simp
qed

lemma all_remove_motor_controller_frame:
  "camera_controllers (snd (for_each (remove_motor_controller e) ns s)) = camera_controllers s"
  "light_controllers (snd (for_each (remove_motor_controller e) ns s)) = light_controllers s"
  "endstop_controllers (snd (for_each (remove_motor_controller e) ns s)) = endstop_controllers s"
  "scanner_device (snd (for_each (remove_motor_controller e) ns s)) = scanner_device s"
  "logged (snd (for_each (remove_motor_controller e) ns s)) = logged s"
proof -
  show "camera_controllers (snd (for_each (remove_motor_controller e) ns s)) = camera_controllers s"
    by (rule for_each_preserves) (rule remove_motor_controller_frame(1))
  show "light_controllers (snd (for_each (remove_motor_controller e) ns s)) = light_controllers s"
    by (rule for_each_preserves) (rule remove_motor_controller_frame(2))
  show "endstop_controllers (snd (for_each (remove_motor_controller e) ns s)) = endstop_controllers s"
    by (rule for_each_preserves) (rule remove_motor_controller_frame(3))
  show "scanner_device (snd (for_each (remove_motor_controller e) ns s)) = scanner_device s"
    by (rule for_each_preserves) (rule remove_motor_controller_frame(4))
  show "logged (snd (for_each (remove_motor_controller e) ns s)) = logged s"
    by (rule for_each_preserves) (rule remove_motor_controller_frame(5))
qed

lemma all_remove_motor_controller_distinct:
  "distinct (map fst (motor_controllers s)) \<Longrightarrow> distinct (map fst (motor_controllers (snd (for_each (remove_motor_controller e) ns s))))"
  by (rule for_each_invariant [where Q = "\<lambda>s. distinct (map fst (motor_controllers s))"]) (rule remove_motor_controller_distinct)

text \<open>When no cleanup raises, the loop returns.\<close>

lemma all_remove_motor_controller_ok:
  "\<forall>n\<in>set ns. \<not> fails e (Cleanup MotorCat n) \<Longrightarrow> \<not> fst (for_each (remove_motor_controller e) ns s)"
proof (induction ns arbitrary: s)
  case Nil
  show ?case by simp
next
  case (Cons n ns)
  then have ok: "\<not> fails e (Cleanup MotorCat n)" and rest: "\<forall>n\<in>set ns. \<not> fails e (Cleanup MotorCat n)"
    by simp_all
  show ?case
  proof (cases rule: remove_motor_controller_cases [of n s e])
    case absent
    then have "for_each (remove_motor_controller e) (n # ns) s = for_each (remove_motor_controller e) ns s" by simp
    with Cons.IH [OF rest, of s] show ?thesis by simp
  next
    case raises
    with ok show ?thesis by simp
  next
    case removed
    let ?t = "s\<lparr>motor_controllers := AList.delete n (motor_controllers s), trace := trace s @ [Cleanup MotorCat n]\<rparr>"
    from removed(3) have "for_each (remove_motor_controller e) (n # ns) s = for_each (remove_motor_controller e) ns ?t" by simp
    with Cons.IH [OF rest, of ?t] show ?thesis by simp
  qed
qed

text \<open>When the loop returns, every controller named was cleaned up and removed, in order.\<close>

lemma all_remove_motor_controller_returned:
  "distinct ns \<Longrightarrow> set ns \<subseteq> fst ` set (motor_controllers s) \<Longrightarrow> \<not> fst (for_each (remove_motor_controller e) ns s) \<Longrightarrow>
   snd (for_each (remove_motor_controller e) ns s) =
     s\<lparr>motor_controllers := fold AList.delete ns (motor_controllers s), trace := trace s @ map (Cleanup MotorCat) ns\<rparr>"
proof (induction ns arbitrary: s)
  case Nil
  show ?case by simp
next
  case (Cons n ns)
  from Cons.prems(2) have k: "n \<in> fst ` set (motor_controllers s)" by simp
  show ?case
  proof (cases rule: remove_motor_controller_cases [of n s e])
    case absent
    with k show ?thesis by simp
  next
    case raises
    then have "fst (for_each (remove_motor_controller e) (n # ns) s)" by simp
    with Cons.prems(3) show ?thesis by simp
  next
    case removed
    let ?t = "s\<lparr>motor_controllers := AList.delete n (motor_controllers s), trace := trace s @ [Cleanup MotorCat n]\<rparr>"
    from removed(3) have step: "for_each (remove_motor_controller e) (n # ns) s = for_each (remove_motor_controller e) ns ?t" by simp
    from Cons.prems have d: "distinct ns" and sub: "set ns \<subseteq> fst ` set (motor_controllers ?t)"
      by (auto simp: keys_delete)
    from Cons.prems(3) have r: "\<not> fst (for_each (remove_motor_controller e) ns ?t)" unfolding step .
    have "snd (for_each (remove_motor_controller e) (n # ns) s) = snd (for_each (remove_motor_controller e) ns ?t)"
      unfolding step ..
    also have "\<dots> = ?t\<lparr>motor_controllers := fold AList.delete ns (motor_controllers ?t),
        trace := trace ?t @ map (Cleanup MotorCat) ns\<rparr>"
      using d sub r by (rule Cons.IH)
    also have "\<dots> = s\<lparr>motor_controllers := fold AList.delete (n # ns) (motor_controllers s),
        trace := trace s @ map (Cleanup MotorCat) (n # ns)\<rparr>"
      by simp
    finally show ?thesis .
  qed
qed

lemma all_remove_motor_controller_keys_returned:
  assumes "distinct (map fst (motor_controllers s))"
    and "\<not> fst (for_each (remove_motor_controller e) (map fst (motor_controllers s)) s)"
  shows "snd (for_each (remove_motor_controller e) (map fst (motor_controllers s)) s) =
     s\<lparr>motor_controllers := [], trace := trace s @ map (Cleanup MotorCat) (map fst (motor_controllers s))\<rparr>"
proof -
  have "set (map fst (motor_controllers s)) \<subseteq> fst ` set (motor_controllers s)" by simp
  from all_remove_motor_controller_returned [OF assms(1) this assms(2)] show ?thesis
    by (simp only: fold_delete_all)
qed

lemma remove_light_controller_cases:
  obtains
    (absent) "n \<notin> fst ` set (light_controllers s)" "remove_light_controller e n s = (False, s)"
  | (raises) "n \<in> fst ` set (light_controllers s)" "fails e (Cleanup LightCat n)"
      "remove_light_controller e n s = (True, s\<lparr>trace := trace s @ [Cleanup LightCat n]\<rparr>)"
  | (removed) "n \<in> fst ` set (light_controllers s)" "\<not> fails e (Cleanup LightCat n)"
      "remove_light_controller e n s =
        (False, s\<lparr>light_controllers := AList.delete n (light_controllers s), trace := trace s @ [Cleanup LightCat n]\<rparr>)"
proof (cases "map_of (light_controllers s) n")
  case None
  then have "n \<notin> fst ` set (light_controllers s)" by (simp add: map_of_eq_None_iff)
  moreover from None have "remove_light_controller e n s = (False, s)" by (simp add: remove_light_controller_def)
  ultimately show ?thesis by (rule absent)
next
  case (Some c)
  then have k: "n \<in> fst ` set (light_controllers s)"
    using map_of_eq_None_iff [of "light_controllers s" n] by simp
  show ?thesis
  proof (cases "fails e (Cleanup LightCat n)")
    case True
    with Some have "remove_light_controller e n s = (True, s\<lparr>trace := trace s @ [Cleanup LightCat n]\<rparr>)"
      by (simp add: remove_light_controller_def perform_def)
    with k True show ?thesis by (rule raises)
  next
    case False
    with Some have "remove_light_controller e n s =
        (False, s\<lparr>light_controllers := AList.delete n (light_controllers s), trace := trace s @ [Cleanup LightCat n]\<rparr>)"
      by (simp add: remove_light_controller_def perform_def)
    with k False show ?thesis by (rule removed)
  qed
qed

lemma remove_light_controller_trace: "extends_trace (\<lambda>a. a = Cleanup LightCat n) s (snd (remove_light_controller e n s))"
  by (cases rule: remove_light_controller_cases [of n s e]) (simp_all add: extends_trace_def)

lemma remove_light_controller_frame:
  "camera_controllers (snd (remove_light_controller e n s)) = camera_controllers s"
  "motor_controllers (snd (remove_light_controller e n s)) = motor_controllers s"
  "endstop_controllers (snd (remove_light_controller e n s)) = endstop_controllers s"
  "scanner_device (snd (remove_light_controller e n s)) = scanner_device s"
  "logged (snd (remove_light_controller e n s)) = logged s"
proof -
  show "camera_controllers (snd (remove_light_controller e n s)) = camera_controllers s"
    by (cases rule: remove_light_controller_cases [of n s e]) simp_all
  show "motor_controllers (snd (remove_light_controller e n s)) = motor_controllers s"
    by (cases rule: remove_light_controller_cases [of n s e]) simp_all
  show "endstop_controllers (snd (remove_light_controller e n s)) = endstop_controllers s"
    by (cases rule: remove_light_controller_cases [of n s e]) simp_all
  show "scanner_device (snd (remove_light_controller e n s)) = scanner_device s"
    by (cases rule: remove_light_controller_cases [of n s e]) simp_all
  show "logged (snd (remove_light_controller e n s)) = logged s"
    by (cases rule: remove_light_controller_cases [of n s e]) simp_all
qed

lemma remove_light_controller_distinct:
  "distinct (map fst (light_controllers s)) \<Longrightarrow> distinct (map fst (light_controllers (snd (remove_light_controller e n s))))"
  by (cases rule: remove_light_controller_cases [of n s e]) (simp_all add: distinct_delete)

lemma all_remove_light_controller_trace:
  "extends_trace is_cleanup s (snd (for_each (remove_light_controller e) ns s))"
proof (rule for_each_extends)
  fix x s
  show "extends_trace is_cleanup s (snd (remove_light_controller e x s))"
    by (rule extends_mono [OF remove_light_controller_trace]) simp
qed

lemma all_remove_light_controller_frame:
  "camera_controllers (snd (for_each (remove_light_controller e) ns s)) = camera_controllers s"
  "motor_controllers (snd (for_each (remove_light_controller e) ns s)) = motor_controllers s"
  "endstop_controllers (snd (for_each (remove_light_controller e) ns s)) = endstop_controllers s"
  "scanner_device (snd (for_each (remove_light_controller e) ns s)) = scanner_device s"
  "logged (snd (for_each (remove_light_controller e) ns s)) = logged s"
proof -
  show "camera_controllers (snd (for_each (remove_light_controller e) ns s)) = camera_controllers s"
    by (rule for_each_preserves) (rule remove_light_controller_frame(1))
  show "motor_controllers (snd (for_each (remove_light_controller e) ns s)) = motor_controllers s"
    by (rule for_each_preserves) (rule remove_light_controller_frame(2))
  show "endstop_controllers (snd (for_each (remove_light_controller e) ns s)) = endstop_controllers s"
    by (rule for_each_preserves) (rule remove_light_controller_frame(3))
  show "scanner_device (snd (for_each (remove_light_controller e) ns s)) = scanner_device s"
    by (rule for_each_preserves) (rule remove_light_controller_frame(4))
  show "logged (snd (for_each (remove_light_controller e) ns s)) = logged s"
    by (rule for_each_preserves) (rule remove_light_controller_frame(5))
qed

lemma all_remove_light_controller_distinct:
  "distinct (map fst (light_controllers s)) \<Longrightarrow> distinct (map fst (light_controllers (snd (for_each (remove_light_controller e) ns s))))"
  by (rule for_each_invariant [where Q = "\<lambda>s. distinct (map fst (light_controllers s))"]) (rule remove_light_controller_distinct)

text \<open>When no cleanup raises, the loop returns.\<close>

lemma all_remove_light_controller_ok:
  "\<forall>n\<in>set ns. \<not> fails e (Cleanup LightCat n) \<Longrightarrow> \<not> fst (for_each (remove_light_controller e) ns s)"
proof (induction ns arbitrary: s)
  case Nil
  show ?case by simp
next
  case (Cons n ns)
  then have ok: "\<not> fails e (Cleanup LightCat n)" and rest: "\<forall>n\<in>set ns. \<not> fails e (Cleanup LightCat n)"
    by simp_all
  show ?case
  proof (cases rule: remove_light_controller_cases [of n s e])
    case absent
    then have "for_each (remove_light_controller e) (n # ns) s = for_each (remove_light_controller e) ns s" by simp
    with Cons.IH [OF rest, of s] show ?thesis by simp
  next
    case raises
    with ok show ?thesis by simp
  next
    case removed
    let ?t = "s\<lparr>light_controllers := AList.delete n (light_controllers s), trace := trace s @ [Cleanup LightCat n]\<rparr>"
    from removed(3) have "for_each (remove_light_controller e) (n # ns) s = for_each (remove_light_controller e) ns ?t" by simp
    with Cons.IH [OF rest, of ?t] show ?thesis by simp
  qed
qed

text \<open>When the loop returns, every controller named was cleaned up and removed, in order.\<close>

lemma all_remove_light_controller_returned:
  "distinct ns \<Longrightarrow> set ns \<subseteq> fst ` set (light_controllers s) \<Longrightarrow> \<not> fst (for_each (remove_light_controller e) ns s) \<Longrightarrow>
   snd (for_each (remove_light_controller e) ns s) =
     s\<lparr>light_controllers := fold AList.delete ns (light_controllers s), trace := trace s @ map (Cleanup LightCat) ns\<rparr>"
proof (induction ns arbitrary: s)
  case Nil
  show ?case by simp
next
  case (Cons n ns)
  from Cons.prems(2) have k: "n \<in> fst ` set (light_controllers s)" by simp
  show ?case
  proof (cases rule: remove_light_controller_cases [of n s e])
    case absent
    with k show ?thesis by simp
  next
    case raises
    then have "fst (for_each (remove_light_controller e) (n # ns) s)" by simp
    with Cons.prems(3) show ?thesis by simp
  next
    case removed
    let ?t = "s\<lparr>light_controllers := AList.delete n (light_controllers s), trace := trace s @ [Cleanup LightCat n]\<rparr>"
    from removed(3) have step: "for_each (remove_light_controller e) (n # ns) s = for_each (remove_light_controller e) ns ?t" by simp
    from Cons.prems have d: "distinct ns" and sub: "set ns \<subseteq> fst ` set (light_controllers ?t)"
      by (auto simp: keys_delete)
    from Cons.prems(3) have r: "\<not> fst (for_each (remove_light_controller e) ns ?t)" unfolding step .
    have "snd (for_each (remove_light_controller e) (n # ns) s) = snd (for_each (remove_light_controller e) ns ?t)"
      unfolding step ..
    also have "\<dots> = ?t\<lparr>light_controllers := fold AList.delete ns (light_controllers ?t),
        trace := trace ?t @ map (Cleanup LightCat) ns\<rparr>"
      using d sub r by (rule Cons.IH)
    also have "\<dots> = s\<lparr>light_controllers := fold AList.delete (n # ns) (light_controllers s),
        trace := trace s @ map (Cleanup LightCat) (n # ns)\<rparr>"
      by simp
    finally show ?thesis .
  qed
qed

lemma all_remove_light_controller_keys_returned:
  assumes "distinct (map fst (light_controllers s))"
    and "\<not> fst (for_each (remove_light_controller e) (map fst (light_controllers s)) s)"
  shows "snd (for_each (remove_light_controller e) (map fst (light_controllers s)) s) =
     s\<lparr>light_controllers := [], trace := trace s @ map (Cleanup LightCat) (map fst (light_controllers s))\<rparr>"
proof -
  have "set (map fst (light_controllers s)) \<subseteq> fst ` set (light_controllers s)" by simp
  from all_remove_light_controller_returned [OF assms(1) this assms(2)] show ?thesis
    by (simp only: fold_delete_all)
qed

lemma remove_camera_controller_cases:
  obtains
    (absent) "n \<notin> fst ` set (camera_controllers s)" "remove_camera_controller e n s = (False, s)"
  | (raises) "n \<in> fst ` set (camera_controllers s)" "fails e (Cleanup CameraCat n)"
      "remove_camera_controller e n s = (True, s\<lparr>trace := trace s @ [Cleanup CameraCat n]\<rparr>)"
  | (removed) "n \<in> fst ` set (camera_controllers s)" "\<not> fails e (Cleanup CameraCat n)"
      "remove_camera_controller e n s =
        (False, s\<lparr>camera_controllers := AList.delete n (camera_controllers s), trace := trace s @ [Cleanup CameraCat n]\<rparr>)"
proof (cases "map_of (camera_controllers s) n")
  case None
  then have "n \<notin> fst ` set (camera_controllers s)" by (simp add: map_of_eq_None_iff)
  moreover from None have "remove_camera_controller e n s = (False, s)" by (simp add: remove_camera_controller_def)
  ultimately show ?thesis by (rule absent)
next
  case (Some c)
  then have k: "n \<in> fst ` set (camera_controllers s)"
    using map_of_eq_None_iff [of "camera_controllers s" n] by simp
  show ?thesis
  proof (cases "fails e (Cleanup CameraCat n)")
    case True
    with Some have "remove_camera_controller e n s = (True, s\<lparr>trace := trace s @ [Cleanup CameraCat n]\<rparr>)"
      by (simp add: remove_camera_controller_def perform_def)
    with k True show ?thesis by (rule raises)
  next
    case False
    with Some have "remove_camera_controller e n s =
        (False, s\<lparr>camera_controllers := AList.delete n (camera_controllers s), trace := trace s @ [Cleanup CameraCat n]\<rparr>)"
      by (simp add: remove_camera_controller_def perform_def)
    with k False show ?thesis by (rule removed)
  qed
qed

lemma remove_camera_controller_trace: "extends_trace (\<lambda>a. a = Cleanup CameraCat n) s (snd (remove_camera_controller e n s))"
  by (cases rule: remove_camera_controller_cases [of n s e]) (simp_all add: extends_trace_def)

lemma remove_camera_controller_frame:
  "motor_controllers (snd (remove_camera_controller e n s)) = motor_controllers s"
  "light_controllers (snd (remove_camera_controller e n s)) = light_controllers s"
  "endstop_controllers (snd (remove_camera_controller e n s)) = endstop_controllers s"
  "scanner_device (snd (remove_camera_controller e n s)) = scanner_device s"
  "logged (snd (remove_camera_controller e n s)) = logged s"
proof -
  show "motor_controllers (snd (remove_camera_controller e n s)) = motor_controllers s"
    by (cases rule: remove_camera_controller_cases [of n s e]) simp_all
  show "light_controllers (snd (remove_camera_controller e n s)) = light_controllers s"
    by (cases rule: remove_camera_controller_cases [of n s e]) simp_all
  show "endstop_controllers (snd (remove_camera_controller e n s)) = endstop_controllers s"
    by (cases rule: remove_camera_controller_cases [of n s e]) simp_all
  show "scanner_device (snd (remove_camera_controller e n s)) = scanner_device s"
    by (cases rule: remove_camera_controller_cases [of n s e]) simp_all
  show "logged (snd (remove_camera_controller e n s)) = logged s"
    by (cases rule: remove_camera_controller_cases [of n s e]) simp_all
qed

lemma remove_camera_controller_distinct:
  "distinct (map fst (camera_controllers s)) \<Longrightarrow> distinct (map fst (camera_controllers (snd (remove_camera_controller e n s))))"
  by (cases rule: remove_camera_controller_cases [of n s e]) (simp_all add: distinct_delete)

lemma all_remove_camera_controller_trace:
  "extends_trace is_cleanup s (snd (for_each (remove_camera_controller e) ns s))"
proof (rule for_each_extends)
  fix x s
  show "extends_trace is_cleanup s (snd (remove_camera_controller e x s))"
    by (rule extends_mono [OF remove_camera_controller_trace]) simp
qed

lemma all_remove_camera_controller_frame:
  "motor_controllers (snd (for_each (remove_camera_controller e) ns s)) = motor_controllers s"
  "light_controllers (snd (for_each (remove_camera_controller e) ns s)) = light_controllers s"
  "endstop_controllers (snd (for_each (remove_camera_controller e) ns s)) = endstop_controllers s"
  "scanner_device (snd (for_each (remove_camera_controller e) ns s)) = scanner_device s"
  "logged (snd (for_each (remove_camera_controller e) ns s)) = logged s"
proof -
  show "motor_controllers (snd (for_each (remove_camera_controller e) ns s)) = motor_controllers s"
    by (rule for_each_preserves) (rule remove_camera_controller_frame(1))
  show "light_controllers (snd (for_each (remove_camera_controller e) ns s)) = light_controllers s"
    by (rule for_each_preserves) (rule remove_camera_controller_frame(2))
  show "endstop_controllers (snd (for_each (remove_camera_controller e) ns s)) = endstop_controllers s"
    by (rule for_each_preserves) (rule remove_camera_controller_frame(3))
  show "scanner_device (snd (for_each (remove_camera_controller e) ns s)) = scanner_device s"
    by (rule for_each_preserves) (rule remove_camera_controller_frame(4))
  show "logged (snd (for_each (remove_camera_controller e) ns s)) = logged s"
    by (rule for_each_preserves) (rule remove_camera_controller_frame(5))
qed

lemma all_remove_camera_controller_distinct:
  "distinct (map fst (camera_controllers s)) \<Longrightarrow> distinct (map fst (camera_controllers (snd (for_each (remove_camera_controller e) ns s))))"
  by (rule for_each_invariant [where Q = "\<lambda>s. distinct (map fst (camera_controllers s))"]) (rule remove_camera_controller_distinct)

text \<open>When no cleanup raises, the loop returns.\<close>

lemma all_remove_camera_controller_ok:
  "\<forall>n\<in>set ns. \<not> fails e (Cleanup CameraCat n) \<Longrightarrow> \<not> fst (for_each (remove_camera_controller e) ns s)"
proof (induction ns arbitrary: s)
  case Nil
  show ?case by simp
next
  case (Cons n ns)
  then have ok: "\<not> fails e (Cleanup CameraCat n)" and rest: "\<forall>n\<in>set ns. \<not> fails e (Cleanup CameraCat n)"
    by simp_all
  show ?case
  proof (cases rule: remove_camera_controller_cases [of n s e])
    case absent
    then have "for_each (remove_camera_controller e) (n # ns) s = for_each (remove_camera_controller e) ns s" by simp
    with Cons.IH [OF rest, of s] show ?thesis by simp
  next
    case raises
    with ok show ?thesis by simp
  next
    case removed
    let ?t = "s\<lparr>camera_controllers := AList.delete n (camera_controllers s), trace := trace s @ [Cleanup CameraCat n]\<rparr>"
    from removed(3) have "for_each (remove_camera_controller e) (n # ns) s = for_each (remove_camera_controller e) ns ?t" by simp
    with Cons.IH [OF rest, of ?t] show ?thesis by simp
  qed
qed

text \<open>When the loop returns, every controller named was cleaned up and removed, in order.\<close>

lemma all_remove_camera_controller_returned:
  "distinct ns \<Longrightarrow> set ns \<subseteq> fst ` set (camera_controllers s) \<Longrightarrow> \<not> fst (for_each (remove_camera_controller e) ns s) \<Longrightarrow>
   snd (for_each (remove_camera_controller e) ns s) =
     s\<lparr>camera_controllers := fold AList.delete ns (camera_controllers s), trace := trace s @ map (Cleanup CameraCat) ns\<rparr>"
proof (induction ns arbitrary: s)
  case Nil
  show ?case by simp
next
  case (Cons n ns)
  from Cons.prems(2) have k: "n \<in> fst ` set (camera_controllers s)" by simp
  show ?case
  proof (cases rule: remove_camera_controller_cases [of n s e])
    case absent
    with k show ?thesis by simp
  next
    case raises
    then have "fst (for_each (remove_camera_controller e) (n # ns) s)" by simp
    with Cons.prems(3) show ?thesis by simp
  next
    case removed
    let ?t = "s\<lparr>camera_controllers := AList.delete n (camera_controllers s), trace := trace s @ [Cleanup CameraCat n]\<rparr>"
    from removed(3) have step: "for_each (remove_camera_controller e) (n # ns) s = for_each (remove_camera_controller e) ns ?t" by simp
    from Cons.prems have d: "distinct ns" and sub: "set ns \<subseteq> fst ` set (camera_controllers ?t)"
      by (auto simp: keys_delete)
    from Cons.prems(3) have r: "\<not> fst (for_each (remove_camera_controller e) ns ?t)" unfolding step .
    have "snd (for_each (remove_camera_controller e) (n # ns) s) = snd (for_each (remove_camera_controller e) ns ?t)"
      unfolding step ..
    also have "\<dots> = ?t\<lparr>camera_controllers := fold AList.delete ns (camera_controllers ?t),
        trace := trace ?t @ map (Cleanup CameraCat) ns\<rparr>"
      using d sub r by (rule Cons.IH)
    also have "\<dots> = s\<lparr>camera_controllers := fold AList.delete (n # ns) (camera_controllers s),
        trace := trace s @ map (Cleanup CameraCat) (n # ns)\<rparr>"
      by simp
    finally show ?thesis .
  qed
qed

lemma all_remove_camera_controller_keys_returned:
  assumes "distinct (map fst (camera_controllers s))"
    and "\<not> fst (for_each (remove_camera_controller e) (map fst (camera_controllers s)) s)"
  shows "snd (for_each (remove_camera_controller e) (map fst (camera_controllers s)) s) =
     s\<lparr>camera_controllers := [], trace := trace s @ map (Cleanup CameraCat) (map fst (camera_controllers s))\<rparr>"
proof -
  have "set (map fst (camera_controllers s)) \<subseteq> fst ` set (camera_controllers s)" by simp
  from all_remove_camera_controller_returned [OF assms(1) this assms(2)] show ?thesis
    by (simp only: fold_delete_all)
qed


subsection \<open>The teardown block\<close>

lemma teardown_unfold:
  fixes e s
  defines "r1 \<equiv> for_each (remove_motor_controller e) (map fst (motor_controllers s)) s"
  defines "r2 \<equiv> for_each (remove_light_controller e) (map fst (light_controllers (snd r1))) (snd r1)"
  defines "r3 \<equiv> for_each (remove_camera_controller e) (map fst (camera_controllers (snd r2))) (snd r2)"
  shows "teardown e s =
    (if fst r1 then (True, snd r1)
     else if fst r2 then (True, snd r2)
     else if fst r3 then (True, snd r3)
     else (False, cleanup_all_pins
            (fold (cleanup_endstop e) (map fst (endstop_controllers (snd r3))) (snd r3))))"
proof -
  obtain b1 s1 where a1: "r1 = (b1, s1)" by (cases r1)
  obtain b2 s2 where a2: "r2 = (b2, s2)" by (cases r2)
  obtain b3 s3 where a3: "r3 = (b3, s3)" by (cases r3)
  have c1: "for_each (remove_motor_controller e) (map fst (motor_controllers s)) s = (b1, s1)"
    using a1 unfolding r1_def .
  have c2: "for_each (remove_light_controller e) (map fst (light_controllers s1)) s1 = (b2, s2)"
    using a2 unfolding r2_def a1 by simp
  have c3: "for_each (remove_camera_controller e) (map fst (camera_controllers s2)) s2 = (b3, s3)"
    using a3 unfolding r3_def a2 by simp
  show ?thesis
    unfolding a1 a2 a3 teardown_def
    by (cases b1; cases b2; cases b3) (simp_all add: c1 c2 c3)
qed

lemma teardown_extends:
  "extends_trace (\<lambda>a. is_cleanup a \<or> a = ReleasePins) s (snd (teardown e s))"
proof -
  let ?P = "\<lambda>a. is_cleanup a \<or> a = ReleasePins"
  let ?r1 = "for_each (remove_motor_controller e) (map fst (motor_controllers s)) s"
  let ?r2 = "for_each (remove_light_controller e) (map fst (light_controllers (snd ?r1))) (snd ?r1)"
  let ?r3 = "for_each (remove_camera_controller e) (map fst (camera_controllers (snd ?r2))) (snd ?r2)"
  let ?s4 = "fold (cleanup_endstop e) (map fst (endstop_controllers (snd ?r3))) (snd ?r3)"
  have e1: "extends_trace ?P s (snd ?r1)"
    by (rule extends_mono [OF all_remove_motor_controller_trace]) simp
  have "extends_trace ?P (snd ?r1) (snd ?r2)"
    by (rule extends_mono [OF all_remove_light_controller_trace]) simp
  with e1 have e2: "extends_trace ?P s (snd ?r2)" by (rule extends_trans)
  have "extends_trace ?P (snd ?r2) (snd ?r3)"
    by (rule extends_mono [OF all_remove_camera_controller_trace]) simp
  with e2 have e3: "extends_trace ?P s (snd ?r3)" by (rule extends_trans)
  have "extends_trace ?P (snd ?r3) (cleanup_all_pins ?s4)"
    by (simp add: extends_trace_def cleanup_all_pins_def fold_cleanup_endstop list_all_iff)
  with e3 have e4: "extends_trace ?P s (cleanup_all_pins ?s4)" by (rule extends_trans)
  from e1 e2 e3 e4 show ?thesis
    unfolding teardown_unfold by simp
qed

lemma teardown_device: "scanner_device (snd (teardown e s)) = scanner_device s"
proof -
  let ?r1 = "for_each (remove_motor_controller e) (map fst (motor_controllers s)) s"
  let ?r2 = "for_each (remove_light_controller e) (map fst (light_controllers (snd ?r1))) (snd ?r1)"
  let ?r3 = "for_each (remove_camera_controller e) (map fst (camera_controllers (snd ?r2))) (snd ?r2)"
  let ?s4 = "fold (cleanup_endstop e) (map fst (endstop_controllers (snd ?r3))) (snd ?r3)"
  have e1: "scanner_device (snd ?r1) = scanner_device s"
    by (rule all_remove_motor_controller_frame(4))
  have e2: "scanner_device (snd ?r2) = scanner_device s"
    unfolding all_remove_light_controller_frame(4) by (rule e1)
  have e3: "scanner_device (snd ?r3) = scanner_device s"
    unfolding all_remove_camera_controller_frame(4) by (rule e2)
  have e4: "scanner_device (cleanup_all_pins ?s4) = scanner_device s"
    using e3 by (simp add: cleanup_all_pins_def fold_cleanup_endstop)
  from e1 e2 e3 e4 show ?thesis
    unfolding teardown_unfold by simp
qed

lemma wf_teardown:
  assumes "wf_state s"
  shows "wf_state (snd (teardown e s))"
proof -
  let ?r1 = "for_each (remove_motor_controller e) (map fst (motor_controllers s)) s"
  let ?r2 = "for_each (remove_light_controller e) (map fst (light_controllers (snd ?r1))) (snd ?r1)"
  let ?r3 = "for_each (remove_camera_controller e) (map fst (camera_controllers (snd ?r2))) (snd ?r2)"
  let ?s4 = "fold (cleanup_endstop e) (map fst (endstop_controllers (snd ?r3))) (snd ?r3)"
  from assms have d: "distinct (map fst (camera_controllers s))"
    "distinct (map fst (motor_controllers s))" "distinct (map fst (light_controllers s))"
    "distinct (map fst (endstop_controllers s))"
    by (simp_all add: wf_state_def)
  have e1: "wf_state (snd ?r1)"
    unfolding wf_state_def all_remove_motor_controller_frame
    using d all_remove_motor_controller_distinct [OF d(2)] by simp
  then have d1: "distinct (map fst (light_controllers (snd ?r1)))" by (simp add: wf_state_def)
  have e2: "wf_state (snd ?r2)"
    unfolding wf_state_def all_remove_light_controller_frame
    using e1 all_remove_light_controller_distinct [OF d1] by (simp add: wf_state_def)
  then have d2: "distinct (map fst (camera_controllers (snd ?r2)))" by (simp add: wf_state_def)
  have e3: "wf_state (snd ?r3)"
    unfolding wf_state_def all_remove_camera_controller_frame
    using e2 all_remove_camera_controller_distinct [OF d2] by (simp add: wf_state_def)
  have e4: "wf_state (cleanup_all_pins ?s4)"
    using e3 by (simp add: wf_state_def cleanup_all_pins_def fold_cleanup_endstop fold_delete_all)
  from e1 e2 e3 e4 show ?thesis
    unfolding teardown_unfold by simp
qed

text \<open>When no removal raises, the teardown returns.\<close>

lemma teardown_ok:
  assumes "removals_return e s"
  shows "\<not> fst (teardown e s)"
proof -
  let ?r1 = "for_each (remove_motor_controller e) (map fst (motor_controllers s)) s"
  let ?r2 = "for_each (remove_light_controller e) (map fst (light_controllers (snd ?r1))) (snd ?r1)"
  let ?r3 = "for_each (remove_camera_controller e) (map fst (camera_controllers (snd ?r2))) (snd ?r2)"
  from assms have m: "\<forall>n\<in>set (map fst (motor_controllers s)). \<not> fails e (Cleanup MotorCat n)"
    and l: "\<forall>n\<in>set (map fst (light_controllers s)). \<not> fails e (Cleanup LightCat n)"
    and c: "\<forall>n\<in>set (map fst (camera_controllers s)). \<not> fails e (Cleanup CameraCat n)"
    by (simp_all add: removals_return_def list_all_iff)
  have e1: "\<not> fst ?r1" using m by (rule all_remove_motor_controller_ok)
  have l1: "light_controllers (snd ?r1) = light_controllers s"
    by (rule all_remove_motor_controller_frame(2))
  have e2: "\<not> fst ?r2" unfolding l1 using l by (rule all_remove_light_controller_ok)
  have c2: "camera_controllers (snd ?r2) = camera_controllers s"
    unfolding all_remove_light_controller_frame(1) by (rule all_remove_motor_controller_frame(1))
  have e3: "\<not> fst ?r3" unfolding c2 using c by (rule all_remove_camera_controller_ok)
  from e1 e2 e3 show ?thesis
    unfolding teardown_unfold by simp
qed

text \<open>When the teardown returns, its calls are those of \<open>teardown_events\<close>, all registries
  are empty, and the log has gained the failures of the endstop cleanups.\<close>

lemma teardown_returned:
  assumes "wf_state s" and "\<not> fst (teardown e s)"
  shows "snd (teardown e s) =
     s\<lparr>camera_controllers := [], motor_controllers := [], light_controllers := [],
       endstop_controllers := [],
       trace := trace s @ teardown_events s,
       logged := logged s
          @ failures e (map (Cleanup EndstopCat) (map fst (endstop_controllers s)))\<rparr>"
proof -
  let ?r1 = "for_each (remove_motor_controller e) (map fst (motor_controllers s)) s"
  let ?r2 = "for_each (remove_light_controller e) (map fst (light_controllers (snd ?r1))) (snd ?r1)"
  let ?r3 = "for_each (remove_camera_controller e) (map fst (camera_controllers (snd ?r2))) (snd ?r2)"
  let ?s4 = "fold (cleanup_endstop e) (map fst (endstop_controllers (snd ?r3))) (snd ?r3)"
  define s1 where "s1 = snd ?r1"
  define s2 where "s2 = snd ?r2"
  define s3 where "s3 = snd ?r3"
  from assms(1) have dm: "distinct (map fst (motor_controllers s))"
    and dl: "distinct (map fst (light_controllers s))"
    and dc: "distinct (map fst (camera_controllers s))"
    by (simp_all add: wf_state_def)
  from assms(2) have b: "\<not> fst ?r1" "\<not> fst ?r2" "\<not> fst ?r3"
    unfolding teardown_unfold by (simp_all split: if_splits)
  from assms(2) have c: "snd (teardown e s) = cleanup_all_pins ?s4"
    unfolding teardown_unfold by (simp split: if_splits)
  have e1: "s1 = s\<lparr>motor_controllers := [],
       trace := trace s @ map (Cleanup MotorCat) (map fst (motor_controllers s))\<rparr>"
    unfolding s1_def using dm b(1) by (rule all_remove_motor_controller_keys_returned)
  have dl1: "distinct (map fst (light_controllers s1))" using dl by (simp add: e1)
  have b2: "\<not> fst (for_each (remove_light_controller e) (map fst (light_controllers s1)) s1)"
    using b(2) unfolding s1_def .
  have s2': "s2 = snd (for_each (remove_light_controller e) (map fst (light_controllers s1)) s1)"
    unfolding s2_def s1_def ..
  have e2: "s2 = s1\<lparr>light_controllers := [],
       trace := trace s1 @ map (Cleanup LightCat) (map fst (light_controllers s1))\<rparr>"
    unfolding s2'
    using dl1 b2 by (rule all_remove_light_controller_keys_returned)
  have dc2: "distinct (map fst (camera_controllers s2))" using dc by (simp add: e2 e1)
  have b3: "\<not> fst (for_each (remove_camera_controller e) (map fst (camera_controllers s2)) s2)"
    using b(3) unfolding s2_def s1_def .
  have s3': "s3 = snd (for_each (remove_camera_controller e) (map fst (camera_controllers s2)) s2)"
    unfolding s3_def s2_def ..
  have e3: "s3 = s2\<lparr>camera_controllers := [],
       trace := trace s2 @ map (Cleanup CameraCat) (map fst (camera_controllers s2))\<rparr>"
    unfolding s3'
    using dc2 b3 by (rule all_remove_camera_controller_keys_returned)
  have e4: "fold (cleanup_endstop e) (map fst (endstop_controllers s3)) s3 =
      s3\<lparr>endstop_controllers := [],
       trace := trace s3 @ map (Cleanup EndstopCat) (map fst (endstop_controllers s3)),
       logged := logged s3 @ failures e (map (Cleanup EndstopCat) (map fst (endstop_controllers s3)))\<rparr>"
    by (simp only: fold_cleanup_endstop fold_delete_all)
  have c': "snd (teardown e s) =
      cleanup_all_pins (fold (cleanup_endstop e) (map fst (endstop_controllers s3)) s3)"
    unfolding c s3_def ..
  show ?thesis
    unfolding c' e4 unfolding cleanup_all_pins_def teardown_events_def e3 e2 e1 by simp
qed


subsection \<open>The steps of initialize\<close>

lemma init_camera_eq:
  "init_camera e x s =
    (if \<not> available e (cam_type (snd x)) then log_msg (DependencyMissing (fst x)) s
     else if fails e (Create CameraCat (cam_name (snd x)))
       then s\<lparr>trace := trace s @ [Create CameraCat (cam_name (snd x))],
              logged := logged s @ [ActionFailed (Create CameraCat (fst x))]\<rparr>
       else s\<lparr>camera_controllers := AList.update (cam_name (snd x)) (snd x) (camera_controllers s),
              trace := trace s @ [Create CameraCat (cam_name (snd x))]\<rparr>)"
  by (cases "fails e (Create CameraCat (cam_name (snd x)))")
     (simp_all add: init_camera_def create_camera_controller_def perform_def log_msg_def)

lemma init_motor_eq:
  "init_motor e x s =
    (if fails e (Create MotorCat (m_name (snd x)))
       then s\<lparr>trace := trace s @ [Create MotorCat (m_name (snd x))],
              logged := logged s @ [ActionFailed (Create MotorCat (fst x))]\<rparr>
       else s\<lparr>motor_controllers := AList.update (m_name (snd x)) (snd x) (motor_controllers s),
              trace := trace s @ [Create MotorCat (m_name (snd x))]\<rparr>)"
  by (cases "fails e (Create MotorCat (m_name (snd x)))")
     (simp_all add: init_motor_def create_motor_controller_def perform_def log_msg_def)

lemma init_light_eq:
  "init_light e x s =
    (if fails e (Create LightCat (l_name (snd x)))
       then s\<lparr>trace := trace s @ [Create LightCat (l_name (snd x))],
              logged := logged s @ [ActionFailed (Create LightCat (fst x))]\<rparr>
       else s\<lparr>light_controllers := AList.update (l_name (snd x)) (snd x) (light_controllers s),
              trace := trace s @ [Create LightCat (l_name (snd x))]\<rparr>)"
  by (cases "fails e (Create LightCat (l_name (snd x)))")
     (simp_all add: init_light_def create_light_controller_def perform_def log_msg_def)

lemma init_endstop_unbound:
  "snd x = EndstopData st \<Longrightarrow> map_of (motor_controllers s) (motor_name st) = None \<Longrightarrow>
   init_endstop e x (objs, s) = (objs, log_msg (EndstopError (fst x) ValueError) s)"
  by (simp add: init_endstop_def get_motor_controller_def)

lemma init_endstop_not_a_dict:
  "snd x = EndstopNotADict \<Longrightarrow>
   init_endstop e x (objs, s) = (objs, log_msg (EndstopError (fst x) AttributeError) s)"
  by (simp add: init_endstop_def)

lemma init_endstop_ctor_fails:
  "snd x = EndstopData st \<Longrightarrow> map_of (motor_controllers s) (motor_name st) = Some c \<Longrightarrow>
   fails e (Create EndstopCat (fst x)) \<Longrightarrow>
   init_endstop e x (objs, s) =
     (objs, s\<lparr>trace := trace s @ [Create EndstopCat (fst x)],
              logged := logged s @ [EndstopError (fst x) RuntimeError]\<rparr>)"
  by (simp add: init_endstop_def get_motor_controller_def perform_def log_msg_def)

lemma init_endstop_bound:
  "snd x = EndstopData st \<Longrightarrow> map_of (motor_controllers s) (motor_name st) = Some c \<Longrightarrow>
   \<not> fails e (Create EndstopCat (fst x)) \<Longrightarrow>
   init_endstop e x (objs, s) =
     (AList.update (fst x) \<lparr>e_name = fst x, e_settings = st\<rparr> objs,
      s\<lparr>endstop_controllers :=
           AList.update (fst x)
             \<lparr>ec_endstop = \<lparr>e_name = fst x, e_settings = st\<rparr>, ec_controller = c\<rparr>
             (endstop_controllers s),
        trace := trace s @ [Create EndstopCat (fst x), StartListener (fst x)],
        logged := logged s @ (if fails e (StartListener (fst x))
                              then [EndstopError (fst x) RuntimeError] else [])\<rparr>)"
  by (cases "fails e (StartListener (fst x))")
     (simp_all add: init_endstop_def get_motor_controller_def perform_def log_msg_def Let_def)

text \<open>The four ways a round of the endstop loop can go.\<close>

lemma init_endstop_cases:
  obtains
    (not_a_dict) "snd x = EndstopNotADict"
      "init_endstop e x (objs, s) = (objs, log_msg (EndstopError (fst x) AttributeError) s)"
  | (unbound) st where "snd x = EndstopData st"
      "map_of (motor_controllers s) (motor_name st) = None"
      "init_endstop e x (objs, s) = (objs, log_msg (EndstopError (fst x) ValueError) s)"
  | (ctor_fails) st c where "snd x = EndstopData st"
      "map_of (motor_controllers s) (motor_name st) = Some c"
      "fails e (Create EndstopCat (fst x))"
      "init_endstop e x (objs, s) =
        (objs, s\<lparr>trace := trace s @ [Create EndstopCat (fst x)],
                 logged := logged s @ [EndstopError (fst x) RuntimeError]\<rparr>)"
  | (bound) st c where "snd x = EndstopData st"
      "map_of (motor_controllers s) (motor_name st) = Some c"
      "\<not> fails e (Create EndstopCat (fst x))"
      "init_endstop e x (objs, s) =
        (AList.update (fst x) \<lparr>e_name = fst x, e_settings = st\<rparr> objs,
         s\<lparr>endstop_controllers :=
              AList.update (fst x)
                \<lparr>ec_endstop = \<lparr>e_name = fst x, e_settings = st\<rparr>, ec_controller = c\<rparr>
                (endstop_controllers s),
           trace := trace s @ [Create EndstopCat (fst x), StartListener (fst x)],
           logged := logged s @ (if fails e (StartListener (fst x))
                                 then [EndstopError (fst x) RuntimeError] else [])\<rparr>)"
proof (cases "snd x")
  case EndstopNotADict
  then show ?thesis using init_endstop_not_a_dict not_a_dict by blast
next
  case (EndstopData st)
  show ?thesis
  proof (cases "map_of (motor_controllers s) (motor_name st)")
    case None
    with EndstopData show ?thesis using init_endstop_unbound unbound by blast
  next
    case (Some c)
    show ?thesis
    proof (cases "fails e (Create EndstopCat (fst x))")
      case True
      with EndstopData Some show ?thesis using init_endstop_ctor_fails ctor_fails by blast
    next
      case False
      with EndstopData Some show ?thesis using init_endstop_bound bound by blast
    qed
  qed
qed

lemma init_camera_trace:
  "extends_trace (\<lambda>a. \<exists>n. a = Create CameraCat n) s (init_camera e x s)"
  by (simp add: init_camera_eq log_msg_def extends_trace_def)

lemma init_motor_trace:
  "extends_trace (\<lambda>a. \<exists>n. a = Create MotorCat n) s (init_motor e x s)"
  by (simp add: init_motor_eq extends_trace_def)

lemma init_light_trace:
  "extends_trace (\<lambda>a. \<exists>n. a = Create LightCat n) s (init_light e x s)"
  by (simp add: init_light_eq extends_trace_def)

lemma attempt_trace: "extends_trace (\<lambda>b. b = a) s (attempt e a s)"
  by (simp add: attempt_eq extends_trace_def)

lemma init_endstop_trace:
  "extends_trace (\<lambda>a. a = Create EndstopCat (fst x) \<or> a = StartListener (fst x))
     (snd acc) (snd (init_endstop e x acc))"
proof (cases acc)
  case (Pair objs s)
  show ?thesis
    unfolding Pair
    by (cases rule: init_endstop_cases [of x e objs s])
       (simp_all add: log_msg_def extends_trace_def)
qed

lemma init_camera_frame:
  "motor_controllers (init_camera e x s) = motor_controllers s"
  "light_controllers (init_camera e x s) = light_controllers s"
  "endstop_controllers (init_camera e x s) = endstop_controllers s"
  "scanner_device (init_camera e x s) = scanner_device s"
  by (simp_all add: init_camera_eq log_msg_def)

lemma init_motor_frame:
  "camera_controllers (init_motor e x s) = camera_controllers s"
  "light_controllers (init_motor e x s) = light_controllers s"
  "endstop_controllers (init_motor e x s) = endstop_controllers s"
  "scanner_device (init_motor e x s) = scanner_device s"
  by (simp_all add: init_motor_eq)

lemma init_light_frame:
  "camera_controllers (init_light e x s) = camera_controllers s"
  "motor_controllers (init_light e x s) = motor_controllers s"
  "endstop_controllers (init_light e x s) = endstop_controllers s"
  "scanner_device (init_light e x s) = scanner_device s"
  by (simp_all add: init_light_eq)

lemma init_endstop_frame:
  "camera_controllers (snd (init_endstop e x acc)) = camera_controllers (snd acc)"
  "motor_controllers (snd (init_endstop e x acc)) = motor_controllers (snd acc)"
  "light_controllers (snd (init_endstop e x acc)) = light_controllers (snd acc)"
  "scanner_device (snd (init_endstop e x acc)) = scanner_device (snd acc)"
proof -
  obtain objs s where acc: "acc = (objs, s)" by (cases acc)
  show "camera_controllers (snd (init_endstop e x acc)) = camera_controllers (snd acc)"
    unfolding acc by (cases rule: init_endstop_cases [of x e objs s]) (simp_all add: log_msg_def)
  show "motor_controllers (snd (init_endstop e x acc)) = motor_controllers (snd acc)"
    unfolding acc by (cases rule: init_endstop_cases [of x e objs s]) (simp_all add: log_msg_def)
  show "light_controllers (snd (init_endstop e x acc)) = light_controllers (snd acc)"
    unfolding acc by (cases rule: init_endstop_cases [of x e objs s]) (simp_all add: log_msg_def)
  show "scanner_device (snd (init_endstop e x acc)) = scanner_device (snd acc)"
    unfolding acc by (cases rule: init_endstop_cases [of x e objs s]) (simp_all add: log_msg_def)
qed


lemma cameras_from_config_unlog:
  "unlog (snd (cameras_from_config xs acc)) = unlog (snd acc)"
  by (induction xs acc rule: cameras_from_config.induct) simp_all

lemma detect_cameras_empty:
  assumes "camera_controllers s = []"
  shows "\<not> fst (detect_cameras e s)"
    and "unlog (snd (snd (detect_cameras e s))) = unlog s"
proof -
  have r: "for_each (remove_camera_controller e) (map fst (camera_controllers s)) s = (False, s)"
    by (simp add: assms)
  show "\<not> fst (detect_cameras e s)"
    unfolding detect_cameras_def r
    by (simp add: Let_def split: option.split prod.split bool.split)
  show "unlog (snd (snd (detect_cameras e s))) = unlog s"
    unfolding detect_cameras_def r
    by (simp add: Let_def split: option.split prod.split bool.split)
qed

subsection \<open>initialize in terms of its stages\<close>

lemma initialize_raised_teardown:
  assumes "conf = (case cfg of None \<Rightarrow> model_dump e (scanner_device s0) | Some c \<Rightarrow> c)"
    and "section_entries ''cameras'' (cfg_cameras conf) s0 = (config_cameras, sa)"
    and "section_entries ''motors'' (cfg_motors conf) sa = (config_motors, sb)"
    and "section_entries ''lights'' (cfg_lights conf) sb = (config_lights, sc)"
    and "section_entries ''endstops'' (cfg_endstops conf) sc = (config_endstops, sd)"
    and "(if initialized (scanner_device sd) then teardown e sd else (False, sd)) = (True, s1)"
  shows "initialize e cfg detect s0 = (True, s1)"
  unfolding initialize_def Let_def
  unfolding assms(1)[symmetric] assms(2) prod.case assms(3) assms(4) assms(5) assms(6)
  by simp

lemma initialize_raised_detection:
  assumes "conf = (case cfg of None \<Rightarrow> model_dump e (scanner_device s0) | Some c \<Rightarrow> c)"
    and "section_entries ''cameras'' (cfg_cameras conf) s0 = (config_cameras, sa)"
    and "section_entries ''motors'' (cfg_motors conf) sa = (config_motors, sb)"
    and "section_entries ''lights'' (cfg_lights conf) sb = (config_lights, sc)"
    and "section_entries ''endstops'' (cfg_endstops conf) sc = (config_endstops, sd)"
    and "(if initialized (scanner_device sd) then teardown e sd else (False, sd)) = (False, s1)"
    and "(if detect \<or> config_cameras = [] then detect_cameras e s1
            else (False, cameras_from_config config_cameras ([], s1))) = (True, camera_objects, s2)"
  shows "initialize e cfg detect s0 = (True, s2)"
  unfolding initialize_def Let_def
  unfolding assms(1)[symmetric] assms(2) prod.case assms(3) assms(4) assms(5) assms(6) assms(7)
  by simp

lemma initialize_phases:
  assumes "conf = (case cfg of None \<Rightarrow> model_dump e (scanner_device s0) | Some c \<Rightarrow> c)"
    and "section_entries ''cameras'' (cfg_cameras conf) s0 = (config_cameras, sa)"
    and "section_entries ''motors'' (cfg_motors conf) sa = (config_motors, sb)"
    and "section_entries ''lights'' (cfg_lights conf) sb = (config_lights, sc)"
    and "section_entries ''endstops'' (cfg_endstops conf) sc = (config_endstops, sd)"
    and "(if initialized (scanner_device sd) then teardown e sd else (False, sd)) = (False, s1)"
    and "(if detect \<or> config_cameras = [] then detect_cameras e s1
            else (False, cameras_from_config config_cameras ([], s1))) = (False, camera_objects, s2)"
    and "motor_objects = map (\<lambda>(n, st). (n, \<lparr>m_name = n, m_settings = st\<rparr>)) config_motors"
    and "light_objects = map (\<lambda>(n, st). (n, \<lparr>l_name = n, l_settings = st\<rparr>)) config_lights"
    and "s3 = fold (init_camera e) camera_objects s2"
    and "s4 = fold (init_motor e) motor_objects s3"
    and "fold (init_endstop e) config_endstops ([], s4) = (endstop_objects, s5)"
    and "s6 = fold (init_light e) light_objects s5"
    and "s7 = fold (\<lambda>n. attempt e (TurnOn n)) (map fst (light_controllers s6)) s6"
    and "parse_enum (scanner_models e) (cfg_model conf) s7 = (model_v, s8)"
    and "parse_enum (scanner_shields e) (cfg_shield conf) s8 = (shield_v, s9)"
  shows "initialize e cfg detect s0 =
     (False,
      s9\<lparr>scanner_device :=
              \<lparr>device_name = (case cfg_name conf of None \<Rightarrow> device_name (scanner_device s9)
                               | Some n \<Rightarrow> n),
               model = model_v, shield = shield_v,
               cameras = camera_objects, motors = motor_objects, lights = light_objects,
               endstops = endstop_objects, initialized = True\<rparr>,
         trace := trace s9 @ [Broadcast]\<rparr>)"
  unfolding initialize_def Let_def
  unfolding assms(1)[symmetric] assms(2) prod.case assms(3) assms(4) assms(5) assms(6)
    assms(7) bool.case assms(8)[symmetric] assms(9)[symmetric] assms(10)[symmetric] assms(11)[symmetric]
    assms(12) assms(13)[symmetric] assms(14)[symmetric] assms(15) assms(16)
  by simp

text \<open>The sections are read the same way whatever happens later.\<close>

lemma sections_read:
  fixes e cfg s
  defines "conf \<equiv> effective_config e cfg s"
  defines "sa \<equiv> snd (section_entries ''cameras'' (cfg_cameras conf) s)"
  defines "sb \<equiv> snd (section_entries ''motors'' (cfg_motors conf) sa)"
  defines "sc \<equiv> snd (section_entries ''lights'' (cfg_lights conf) sb)"
  shows "conf = (case cfg of None \<Rightarrow> model_dump e (scanner_device s) | Some c \<Rightarrow> c)"
    and "section_entries ''cameras'' (cfg_cameras conf) s = (entries_of (cfg_cameras conf), sa)"
    and "section_entries ''motors'' (cfg_motors conf) sa = (entries_of (cfg_motors conf), sb)"
    and "section_entries ''lights'' (cfg_lights conf) sb = (entries_of (cfg_lights conf), sc)"
    and "section_entries ''endstops'' (cfg_endstops conf) sc
          = (entries_of (cfg_endstops conf), after_sections e cfg s)"
proof -
  show "conf = (case cfg of None \<Rightarrow> model_dump e (scanner_device s) | Some c \<Rightarrow> c)"
    by (simp add: conf_def effective_config_def)
  show "section_entries ''cameras'' (cfg_cameras conf) s = (entries_of (cfg_cameras conf), sa)"
    unfolding sa_def using section_entries_eq(1) [of "''cameras''" "cfg_cameras conf" s]
    by (metis prod.collapse)
  show "section_entries ''motors'' (cfg_motors conf) sa = (entries_of (cfg_motors conf), sb)"
    unfolding sb_def using section_entries_eq(1) [of "''motors''" "cfg_motors conf" sa]
    by (metis prod.collapse)
  show "section_entries ''lights'' (cfg_lights conf) sb = (entries_of (cfg_lights conf), sc)"
    unfolding sc_def using section_entries_eq(1) [of "''lights''" "cfg_lights conf" sb]
    by (metis prod.collapse)
  have "after_sections e cfg s = snd (section_entries ''endstops'' (cfg_endstops conf) sc)"
    unfolding after_sections_def Let_def sc_def sb_def sa_def conf_def ..
  then show "section_entries ''endstops'' (cfg_endstops conf) sc
          = (entries_of (cfg_endstops conf), after_sections e cfg s)"
    using section_entries_eq(1) [of "''endstops''" "cfg_endstops conf" sc]
    by (metis prod.collapse)
qed

text \<open>An exception of the teardown leaves \<open>initialize\<close> in the state it has reached.\<close>

lemma initialize_left_in_teardown:
  assumes "fst (torn_down e cfg s)"
  shows "initialize e cfg detect s = (True, after_teardown e cfg s)"
proof -
  have "torn_down e cfg s = (True, after_teardown e cfg s)"
    using assms unfolding after_teardown_def by (cases "torn_down e cfg s") simp
  then have t: "(if initialized (scanner_device (after_sections e cfg s))
      then teardown e (after_sections e cfg s) else (False, after_sections e cfg s))
      = (True, after_teardown e cfg s)"
    unfolding torn_down_def .
  show ?thesis
    by (rule initialize_raised_teardown [OF sections_read t])
qed

lemma torn_down_returned:
  assumes "\<not> fst (torn_down e cfg s)"
  shows "(if initialized (scanner_device (after_sections e cfg s))
      then teardown e (after_sections e cfg s) else (False, after_sections e cfg s))
      = (False, after_teardown e cfg s)"
proof -
  have "torn_down e cfg s = (False, after_teardown e cfg s)"
    using assms unfolding after_teardown_def by (cases "torn_down e cfg s") simp
  then show ?thesis unfolding torn_down_def .
qed

lemma initialize_left_in_detection:
  assumes "\<not> fst (torn_down e cfg s)" and "fst (found e cfg detect s)"
  shows "initialize e cfg detect s = (True, snd (found_cameras e cfg detect s))"
proof -
  have "found e cfg detect s = (True, fst (found_cameras e cfg detect s), snd (found_cameras e cfg detect s))"
    using assms(2) unfolding found_cameras_def by (cases "found e cfg detect s") simp
  then have f: "(if detect \<or> entries_of (cfg_cameras (effective_config e cfg s)) = []
      then detect_cameras e (after_teardown e cfg s)
      else (False, cameras_from_config (entries_of (cfg_cameras (effective_config e cfg s)))
            ([], after_teardown e cfg s)))
      = (True, fst (found_cameras e cfg detect s), snd (found_cameras e cfg detect s))"
    unfolding found_def .
  show ?thesis
    by (rule initialize_raised_detection [OF sections_read torn_down_returned [OF assms(1)] f])
qed

text \<open>\<open>initialize\<close> when the binding of the endstops is reached.\<close>

lemma initialize_eq:
  assumes "reaches_binding e cfg detect s"
  shows "initialize e cfg detect s =
    (False,
     (snd (parse_enum (scanner_shields e) (cfg_shield (effective_config e cfg s))
       (snd (parse_enum (scanner_models e) (cfg_model (effective_config e cfg s))
          (after_lights e cfg detect s)))))
     \<lparr>scanner_device :=
        \<lparr>device_name = (case cfg_name (effective_config e cfg s) of
             None \<Rightarrow> device_name (scanner_device
               (snd (parse_enum (scanner_shields e) (cfg_shield (effective_config e cfg s))
                 (snd (parse_enum (scanner_models e) (cfg_model (effective_config e cfg s))
                   (after_lights e cfg detect s))))))
           | Some n \<Rightarrow> n),
         model = fst (parse_enum (scanner_models e) (cfg_model (effective_config e cfg s))
                   (after_lights e cfg detect s)),
         shield = fst (parse_enum (scanner_shields e) (cfg_shield (effective_config e cfg s))
                   (snd (parse_enum (scanner_models e) (cfg_model (effective_config e cfg s))
                      (after_lights e cfg detect s)))),
         cameras = fst (found_cameras e cfg detect s),
         motors = motor_objects_of (effective_config e cfg s),
         lights = light_objects_of (effective_config e cfg s),
         endstops = fst (bound_endstops e cfg detect s), initialized = True\<rparr>,
      trace := trace (snd (parse_enum (scanner_shields e) (cfg_shield (effective_config e cfg s))
                 (snd (parse_enum (scanner_models e) (cfg_model (effective_config e cfg s))
                   (after_lights e cfg detect s))))) @ [Broadcast]\<rparr>)"
proof -
  from assms have r1: "\<not> fst (torn_down e cfg s)" and r2: "\<not> fst (found e cfg detect s)"
    by (simp_all add: reaches_binding_def)
  define conf where "conf = effective_config e cfg s"
  define cs where "cs = found_cameras e cfg detect s"
  define s3 where "s3 = fold (init_camera e) (fst cs) (snd cs)"
  define motor_objects where "motor_objects =
     map (\<lambda>(n, st). (n, \<lparr>m_name = n, m_settings = st\<rparr>)) (entries_of (cfg_motors conf))"
  define light_objects where "light_objects =
     map (\<lambda>(n, st). (n, \<lparr>l_name = n, l_settings = st\<rparr>)) (entries_of (cfg_lights conf))"
  define s4 where "s4 = fold (init_motor e) motor_objects s3"
  define es where "es = fold (init_endstop e) (entries_of (cfg_endstops conf)) ([], s4)"
  define s6 where "s6 = fold (init_light e) light_objects (snd es)"
  define s7 where "s7 = fold (\<lambda>n. attempt e (TurnOn n)) (map fst (light_controllers s6)) s6"
  define m where "m = parse_enum (scanner_models e) (cfg_model conf) s7"
  define sh where "sh = parse_enum (scanner_shields e) (cfg_shield conf) (snd m)"
  have "found e cfg detect s = (False, fst cs, snd cs)"
    using r2 unfolding cs_def found_cameras_def by (cases "found e cfg detect s") simp
  then have cs': "(if detect \<or> entries_of (cfg_cameras conf) = []
      then detect_cameras e (after_teardown e cfg s)
      else (False, cameras_from_config (entries_of (cfg_cameras conf)) ([], after_teardown e cfg s)))
      = (False, fst cs, snd cs)"
    unfolding found_def conf_def .
  have es': "fold (init_endstop e) (entries_of (cfg_endstops conf)) ([], s4) = (fst es, snd es)"
    unfolding es_def by simp
  have m': "parse_enum (scanner_models e) (cfg_model conf) s7 = (fst m, snd m)"
    unfolding m_def by simp
  have sh': "parse_enum (scanner_shields e) (cfg_shield conf) (snd m) = (fst sh, snd sh)"
    unfolding sh_def by simp
  note sec = sections_read [of e cfg s, folded conf_def]
  have fin: "initialize e cfg detect s =
       (False,
        (snd sh)\<lparr>scanner_device :=
              \<lparr>device_name = (case cfg_name conf of None \<Rightarrow> device_name (scanner_device (snd sh))
                               | Some n \<Rightarrow> n),
               model = fst m, shield = fst sh,
               cameras = fst cs, motors = motor_objects, lights = light_objects,
               endstops = fst es, initialized = True\<rparr>,
           trace := trace (snd sh) @ [Broadcast]\<rparr>)"
    by (rule initialize_phases [OF sec torn_down_returned [OF r1] cs' motor_objects_def
          light_objects_def s3_def s4_def es' s6_def s7_def m' sh'])
  have mo2: "motor_objects = motor_objects_of conf"
    unfolding motor_objects_of_def motor_objects_def ..
  have lo2: "light_objects = light_objects_of conf"
    unfolding light_objects_of_def light_objects_def ..
  have s42: "s4 = at_binding e cfg detect s"
    unfolding at_binding_def s4_def s3_def cs_def mo2 conf_def ..
  have es2: "es = bound_endstops e cfg detect s"
    unfolding bound_endstops_def es_def s42 conf_def ..
  have s72: "s7 = after_lights e cfg detect s"
    unfolding after_lights_def light_phase_def Let_def s7_def s6_def lo2 es2 conf_def ..
  show ?thesis
    unfolding fin sh_def m_def s72 cs_def mo2 lo2 es2 conf_def ..
qed

lemma initialize_sel:
  assumes "reaches_binding e cfg detect s"
  shows "\<not> fst (initialize e cfg detect s)"
  "trace (snd (initialize e cfg detect s)) = trace (after_lights e cfg detect s) @ [Broadcast]"
  "camera_controllers (snd (initialize e cfg detect s)) = camera_controllers (after_lights e cfg detect s)"
  "motor_controllers (snd (initialize e cfg detect s)) = motor_controllers (after_lights e cfg detect s)"
  "light_controllers (snd (initialize e cfg detect s)) = light_controllers (after_lights e cfg detect s)"
  "endstop_controllers (snd (initialize e cfg detect s)) = endstop_controllers (after_lights e cfg detect s)"
  "endstops (scanner_device (snd (initialize e cfg detect s))) = fst (bound_endstops e cfg detect s)"
  "initialized (scanner_device (snd (initialize e cfg detect s))) = True"
proof -
  let ?m = "parse_enum (scanner_models e) (cfg_model (effective_config e cfg s))
                   (after_lights e cfg detect s)"
  let ?sh = "parse_enum (scanner_shields e) (cfg_shield (effective_config e cfg s)) (snd ?m)"
  have "unlog (snd ?sh) = unlog (snd ?m)" by (rule parse_enum_unlog)
  also have "\<dots> = unlog (after_lights e cfg detect s)" by (rule parse_enum_unlog)
  finally have u: "unlog (snd ?sh) = unlog (after_lights e cfg detect s)" .
  note f = unlog_eqD [OF u]
  note eq = initialize_eq [OF assms]
  show "\<not> fst (initialize e cfg detect s)"
    unfolding eq by simp
  show "trace (snd (initialize e cfg detect s)) = trace (after_lights e cfg detect s) @ [Broadcast]"
    unfolding eq using f(1) by simp
  show "camera_controllers (snd (initialize e cfg detect s)) = camera_controllers (after_lights e cfg detect s)"
    unfolding eq using f(2) by simp
  show "motor_controllers (snd (initialize e cfg detect s)) = motor_controllers (after_lights e cfg detect s)"
    unfolding eq using f(3) by simp
  show "light_controllers (snd (initialize e cfg detect s)) = light_controllers (after_lights e cfg detect s)"
    unfolding eq using f(4) by simp
  show "endstop_controllers (snd (initialize e cfg detect s)) = endstop_controllers (after_lights e cfg detect s)"
    unfolding eq using f(5) by simp
  show "endstops (scanner_device (snd (initialize e cfg detect s))) = fst (bound_endstops e cfg detect s)"
    unfolding eq by simp
  show "initialized (scanner_device (snd (initialize e cfg detect s))) = True"
    unfolding eq by simp
qed


subsection \<open>The calls of initialize\<close>

lemma wf_state_unlog:
  assumes "unlog s = unlog t"
  shows "wf_state s = wf_state t"
  unfolding wf_state_def unlog_eqD(2-5) [OF assms] ..

lemma teardown_events_unlog:
  assumes "unlog s = unlog t"
  shows "teardown_events s = teardown_events t"
  unfolding teardown_events_def unlog_eqD(2-5) [OF assms] ..

lemma removals_return_unlog:
  assumes "unlog s = unlog t"
  shows "removals_return e s = removals_return e t"
  unfolding removals_return_def unlog_eqD(2-5) [OF assms] ..

lemma after_sections_unlog: "unlog (after_sections e cfg s) = unlog s"
  by (simp add: after_sections_def Let_def section_entries_eq(2))

lemma torn_down_uninitialized:
  assumes "\<not> initialized (scanner_device s)"
  shows "torn_down e cfg s = (False, after_sections e cfg s)"
proof -
  have "\<not> initialized (scanner_device (after_sections e cfg s))"
    using assms unlog_eqD(6) [OF after_sections_unlog [of e cfg s]] by simp
  then show ?thesis unfolding torn_down_def by (rule if_not_P)
qed

lemma torn_down_initialized:
  assumes "initialized (scanner_device s)"
  shows "torn_down e cfg s = teardown e (after_sections e cfg s)"
proof -
  have "initialized (scanner_device (after_sections e cfg s))"
    using assms unlog_eqD(6) [OF after_sections_unlog [of e cfg s]] by simp
  then show ?thesis unfolding torn_down_def by (rule if_P)
qed

lemma torn_down_ok:
  assumes "removals_return e s"
  shows "\<not> fst (torn_down e cfg s)"
proof (cases "initialized (scanner_device s)")
  case True
  have "removals_return e (after_sections e cfg s)"
    using assms removals_return_unlog [OF after_sections_unlog [of e cfg s], of e] by simp
  then show ?thesis
    unfolding torn_down_initialized [OF True] by (rule teardown_ok)
next
  case False
  show ?thesis unfolding torn_down_uninitialized [OF False] by simp
qed

lemma after_teardown_extends:
  "extends_trace (\<lambda>a. is_cleanup a \<or> a = ReleasePins) s (after_teardown e cfg s)"
proof -
  let ?P = "\<lambda>a. is_cleanup a \<or> a = ReleasePins"
  have t: "trace (after_sections e cfg s) = trace s"
    by (rule unlog_eqD(1) [OF after_sections_unlog])
  then have a: "extends_trace ?P s (after_sections e cfg s)" by (rule extends_same)
  show ?thesis
  proof (cases "initialized (scanner_device s)")
    case True
    have "extends_trace ?P (after_sections e cfg s) (snd (teardown e (after_sections e cfg s)))"
      by (rule teardown_extends)
    with a show ?thesis
      unfolding after_teardown_def torn_down_initialized [OF True] by (rule extends_trans)
  next
    case False
    from a show ?thesis
      unfolding after_teardown_def torn_down_uninitialized [OF False] by simp
  qed
qed

lemma after_teardown_device:
  "scanner_device (after_teardown e cfg s) = scanner_device s"
proof (cases "initialized (scanner_device s)")
  case True
  show ?thesis
    unfolding after_teardown_def torn_down_initialized [OF True] teardown_device
    by (rule unlog_eqD(6) [OF after_sections_unlog])
next
  case False
  show ?thesis
    unfolding after_teardown_def torn_down_uninitialized [OF False]
    using unlog_eqD(6) [OF after_sections_unlog [of e cfg s]] by simp
qed

lemma wf_after_teardown:
  assumes "wf_state s"
  shows "wf_state (after_teardown e cfg s)"
proof -
  have w: "wf_state (after_sections e cfg s)"
    using assms wf_state_unlog [OF after_sections_unlog [of e cfg s]] by simp
  show ?thesis
  proof (cases "initialized (scanner_device s)")
    case True
    show ?thesis
      unfolding after_teardown_def torn_down_initialized [OF True]
      by (rule wf_teardown [OF w])
  next
    case False
    show ?thesis
      unfolding after_teardown_def torn_down_uninitialized [OF False] using w by simp
  qed
qed

lemma after_teardown_returned:
  assumes "wf_state s" and "initialized (scanner_device s)" and "\<not> fst (torn_down e cfg s)"
  shows "trace (after_teardown e cfg s) = trace s @ teardown_events s"
    and "camera_controllers (after_teardown e cfg s) = []"
    and "motor_controllers (after_teardown e cfg s) = []"
    and "light_controllers (after_teardown e cfg s) = []"
    and "endstop_controllers (after_teardown e cfg s) = []"
proof -
  let ?sd = "after_sections e cfg s"
  have sd: "unlog ?sd = unlog s" by (rule after_sections_unlog)
  have wf: "wf_state ?sd" using assms(1) wf_state_unlog [OF sd] by simp
  have r: "\<not> fst (teardown e ?sd)"
    using assms(3) unfolding torn_down_initialized [OF assms(2)] .
  have at: "after_teardown e cfg s = snd (teardown e ?sd)"
    unfolding after_teardown_def torn_down_initialized [OF assms(2)] ..
  note eq = teardown_returned [OF wf r]
  show "trace (after_teardown e cfg s) = trace s @ teardown_events s"
    unfolding at eq using teardown_events_unlog [OF sd] unlog_eqD(1) [OF sd] by simp
  show "camera_controllers (after_teardown e cfg s) = []"
    unfolding at eq by simp
  show "motor_controllers (after_teardown e cfg s) = []"
    unfolding at eq by simp
  show "light_controllers (after_teardown e cfg s) = []"
    unfolding at eq by simp
  show "endstop_controllers (after_teardown e cfg s) = []"
    unfolding at eq by simp
qed

lemma found_returned:
  assumes "camera_controllers (after_teardown e cfg s) = []"
  shows "\<not> fst (found e cfg detect s)"
    and "unlog (snd (found_cameras e cfg detect s)) = unlog (after_teardown e cfg s)"
proof -
  have "\<not> fst (found e cfg detect s)
      \<and> unlog (snd (found_cameras e cfg detect s)) = unlog (after_teardown e cfg s)"
  proof (cases "detect \<or> entries_of (cfg_cameras (effective_config e cfg s)) = []")
    case True
    then have "found e cfg detect s = detect_cameras e (after_teardown e cfg s)"
      unfolding found_def by (rule if_P)
    then show ?thesis
      unfolding found_cameras_def using detect_cameras_empty [OF assms, of e] by simp
  next
    case False
    then have "found e cfg detect s =
        (False, cameras_from_config (entries_of (cfg_cameras (effective_config e cfg s)))
          ([], after_teardown e cfg s))"
      unfolding found_def by (rule if_not_P)
    then show ?thesis
      unfolding found_cameras_def using cameras_from_config_unlog by simp
  qed
  then show "\<not> fst (found e cfg detect s)"
    and "unlog (snd (found_cameras e cfg detect s)) = unlog (after_teardown e cfg s)"
    by simp_all
qed

lemma at_binding_extends:
  "extends_trace (\<lambda>a. \<exists>n. a = Create CameraCat n \<or> a = Create MotorCat n)
     (snd (found_cameras e cfg detect s)) (at_binding e cfg detect s)"
proof -
  let ?P = "\<lambda>a. \<exists>n. a = Create CameraCat n \<or> a = Create MotorCat n"
  let ?s3 = "fold (init_camera e) (fst (found_cameras e cfg detect s))
         (snd (found_cameras e cfg detect s))"
  have c: "extends_trace ?P s' (init_camera e x s')" for x s'
    by (rule extends_mono [OF init_camera_trace]) auto
  have m: "extends_trace ?P s' (init_motor e x s')" for x s'
    by (rule extends_mono [OF init_motor_trace]) auto
  have a: "extends_trace ?P (snd (found_cameras e cfg detect s)) ?s3"
    using c by (rule extends_fold)
  have b: "extends_trace ?P ?s3 (at_binding e cfg detect s)"
    unfolding at_binding_def using m by (rule extends_fold)
  show ?thesis by (rule extends_trans [OF a b])
qed

lemma bound_endstops_extends:
  "extends_trace (\<lambda>a. \<exists>n. a = Create EndstopCat n \<or> a = StartListener n)
     (at_binding e cfg detect s) (snd (bound_endstops e cfg detect s))"
proof -
  let ?P = "\<lambda>a. \<exists>n. a = Create EndstopCat n \<or> a = StartListener n"
  have step: "extends_trace ?P (snd acc) (snd (init_endstop e x acc))" for x acc
    by (rule extends_mono [OF init_endstop_trace]) auto
  show ?thesis
    unfolding bound_endstops_def
    using extends_fold_snd [of ?P "init_endstop e" "([], at_binding e cfg detect s)"
          "entries_of (cfg_endstops (effective_config e cfg s))", OF step]
    by simp
qed

lemma light_phase_extends:
  "extends_trace (\<lambda>a. \<exists>n. a = Create LightCat n \<or> a = TurnOn n) s5 (light_phase e ls s5)"
proof -
  let ?P = "\<lambda>a. \<exists>n. a = Create LightCat n \<or> a = TurnOn n"
  let ?s6 = "fold (init_light e) ls s5"
  have l: "extends_trace ?P s' (init_light e x s')" for x s'
    by (rule extends_mono [OF init_light_trace]) auto
  have t: "extends_trace ?P s' (attempt e (TurnOn n) s')" for n s'
    by (rule extends_mono [OF attempt_trace]) auto
  have a: "extends_trace ?P s5 ?s6" using l by (rule extends_fold)
  have b: "extends_trace ?P ?s6 (fold (\<lambda>n. attempt e (TurnOn n)) (map fst (light_controllers ?s6)) ?s6)"
    using t by (rule extends_fold)
  show ?thesis unfolding light_phase_def Let_def by (rule extends_trans [OF a b])
qed

lemma after_lights_extends:
  "extends_trace (\<lambda>a. \<exists>n. a = Create LightCat n \<or> a = TurnOn n)
     (snd (bound_endstops e cfg detect s)) (after_lights e cfg detect s)"
  unfolding after_lights_def by (rule light_phase_extends)

lemma initialize_extends_last:
  assumes "reaches_binding e cfg detect s"
  shows "extends_trace (\<lambda>a. a = Broadcast) (after_lights e cfg detect s)
           (snd (initialize e cfg detect s))"
  by (simp add: extends_trace_def initialize_sel(2) [OF assms])

text \<open>From the state after the teardown block, a call of \<open>initialize\<close> that reaches the
  binding only adds creations, listener starts, light switches and the broadcast.\<close>

lemma initialize_build:
  assumes "reaches_binding e cfg detect s"
    and "camera_controllers (after_teardown e cfg s) = []"
  shows "extends_trace (\<lambda>a. \<not> is_cleanup a \<and> a \<noteq> ReleasePins)
           (after_teardown e cfg s) (snd (initialize e cfg detect s))"
proof -
  let ?P = "\<lambda>a. \<not> is_cleanup a \<and> a \<noteq> ReleasePins"
  have "trace (snd (found_cameras e cfg detect s)) = trace (after_teardown e cfg s)"
    using found_returned(2) [OF assms(2)] by (rule unlog_eqD(1))
  then have a: "extends_trace ?P (after_teardown e cfg s) (snd (found_cameras e cfg detect s))"
    by (rule extends_same)
  have b: "extends_trace ?P (snd (found_cameras e cfg detect s)) (at_binding e cfg detect s)"
    by (rule extends_mono [OF at_binding_extends]) auto
  have c: "extends_trace ?P (at_binding e cfg detect s) (snd (bound_endstops e cfg detect s))"
    by (rule extends_mono [OF bound_endstops_extends]) auto
  have d: "extends_trace ?P (snd (bound_endstops e cfg detect s)) (after_lights e cfg detect s)"
    by (rule extends_mono [OF after_lights_extends]) auto
  have f: "extends_trace ?P (after_lights e cfg detect s) (snd (initialize e cfg detect s))"
    by (rule extends_mono [OF initialize_extends_last [OF assms(1)]]) auto
  show ?thesis
    by (rule extends_trans [OF a extends_trans [OF b extends_trans [OF c extends_trans [OF d f]]]])
qed

subsection \<open>Reachable states\<close>

lemma wf_init_camera: "wf_state s \<Longrightarrow> wf_state (init_camera e x s)"
  by (simp add: wf_state_def init_camera_eq log_msg_def distinct_update)

lemma wf_init_motor: "wf_state s \<Longrightarrow> wf_state (init_motor e x s)"
  by (simp add: wf_state_def init_motor_eq distinct_update)

lemma wf_init_light: "wf_state s \<Longrightarrow> wf_state (init_light e x s)"
  by (simp add: wf_state_def init_light_eq distinct_update)

lemma wf_attempt: "wf_state s \<Longrightarrow> wf_state (attempt e a s)"
  by (simp add: wf_state_def attempt_eq)

lemma wf_init_endstop: "wf_state (snd acc) \<Longrightarrow> wf_state (snd (init_endstop e x acc))"
proof -
  assume w: "wf_state (snd acc)"
  obtain objs s where acc: "acc = (objs, s)" by (cases acc)
  from w show ?thesis
    unfolding acc
    by (cases rule: init_endstop_cases [of x e objs s])
       (simp_all add: wf_state_def log_msg_def distinct_update)
qed

text \<open>In a consistent state the teardown, once it has returned, leaves no controller, and
  the detection cannot be left by an exception.\<close>

lemma after_teardown_clear:
  assumes "consistent s" and "\<not> fst (torn_down e cfg s)"
  shows "camera_controllers (after_teardown e cfg s) = []"
    and "motor_controllers (after_teardown e cfg s) = []"
    and "light_controllers (after_teardown e cfg s) = []"
    and "endstop_controllers (after_teardown e cfg s) = []"
proof -
  from assms have wf: "wf_state s" by (simp add: consistent_def)
  have "camera_controllers (after_teardown e cfg s) = []
      \<and> motor_controllers (after_teardown e cfg s) = []
      \<and> light_controllers (after_teardown e cfg s) = []
      \<and> endstop_controllers (after_teardown e cfg s) = []"
  proof (cases "initialized (scanner_device s)")
    case True
    show ?thesis using after_teardown_returned(2-5) [OF wf True assms(2)] by simp
  next
    case False
    have u: "unlog (after_sections e cfg s) = unlog s" by (rule after_sections_unlog)
    have at: "after_teardown e cfg s = after_sections e cfg s"
      unfolding after_teardown_def torn_down_uninitialized [OF False] by simp
    from assms False have "camera_controllers s = [] \<and> motor_controllers s = []
        \<and> light_controllers s = [] \<and> endstop_controllers s = []"
      by (simp add: consistent_def)
    then show ?thesis unfolding at unlog_eqD(2-5) [OF u] .
  qed
  then show "camera_controllers (after_teardown e cfg s) = []"
    and "motor_controllers (after_teardown e cfg s) = []"
    and "light_controllers (after_teardown e cfg s) = []"
    and "endstop_controllers (after_teardown e cfg s) = []" by simp_all
qed

lemma reaches_binding_consistent:
  assumes "consistent s"
  shows "reaches_binding e cfg detect s = (\<not> fst (torn_down e cfg s))"
proof (cases "fst (torn_down e cfg s)")
  case True
  then show ?thesis by (simp add: reaches_binding_def)
next
  case False
  from found_returned(1) [OF after_teardown_clear(1) [OF assms False]] False
  show ?thesis by (simp add: reaches_binding_def)
qed

lemma found_cameras_clear:
  assumes "consistent s" and "\<not> fst (torn_down e cfg s)"
  shows "camera_controllers (snd (found_cameras e cfg detect s)) = []"
    and "motor_controllers (snd (found_cameras e cfg detect s)) = []"
    and "light_controllers (snd (found_cameras e cfg detect s)) = []"
    and "endstop_controllers (snd (found_cameras e cfg detect s)) = []"
proof -
  note c = after_teardown_clear [OF assms]
  note u = found_returned(2) [OF c(1), of detect]
  show "camera_controllers (snd (found_cameras e cfg detect s)) = []"
    unfolding unlog_eqD(2) [OF u] by (rule c(1))
  show "motor_controllers (snd (found_cameras e cfg detect s)) = []"
    unfolding unlog_eqD(3) [OF u] by (rule c(2))
  show "light_controllers (snd (found_cameras e cfg detect s)) = []"
    unfolding unlog_eqD(4) [OF u] by (rule c(3))
  show "endstop_controllers (snd (found_cameras e cfg detect s)) = []"
    unfolding unlog_eqD(5) [OF u] by (rule c(4))
qed

lemma at_binding_endstops:
  assumes "consistent s" and "\<not> fst (torn_down e cfg s)"
  shows "endstop_controllers (at_binding e cfg detect s) = []"
proof -
  have "endstop_controllers (at_binding e cfg detect s) =
      endstop_controllers (fold (init_camera e) (fst (found_cameras e cfg detect s))
         (snd (found_cameras e cfg detect s)))"
    unfolding at_binding_def by (rule fold_preserves) (rule init_motor_frame(3))
  also have "\<dots> = endstop_controllers (snd (found_cameras e cfg detect s))"
    by (rule fold_preserves) (rule init_camera_frame(3))
  also have "\<dots> = []" by (rule found_cameras_clear(4) [OF assms])
  finally show ?thesis .
qed

lemma wf_at_binding:
  assumes "consistent s" and "\<not> fst (torn_down e cfg s)"
  shows "wf_state (at_binding e cfg detect s)"
proof -
  have "wf_state (snd (found_cameras e cfg detect s))"
    by (simp add: wf_state_def found_cameras_clear [OF assms])
  then have "wf_state (fold (init_camera e) (fst (found_cameras e cfg detect s))
         (snd (found_cameras e cfg detect s)))"
    by (rule fold_invariant [rotated]) (rule wf_init_camera)
  then show ?thesis
    unfolding at_binding_def by (rule fold_invariant [rotated]) (rule wf_init_motor)
qed

lemma wf_bound_endstops:
  assumes "consistent s" and "\<not> fst (torn_down e cfg s)"
  shows "wf_state (snd (bound_endstops e cfg detect s))"
proof -
  have "wf_state (snd ([] :: (string \<times> Endstop) list, at_binding e cfg detect s))"
    using wf_at_binding [OF assms] by simp
  then show ?thesis
    unfolding bound_endstops_def
    by (rule fold_invariant [where Q = "\<lambda>acc. wf_state (snd acc)", rotated]) (rule wf_init_endstop)
qed

lemma wf_light_phase: "wf_state s \<Longrightarrow> wf_state (light_phase e ls s)"
proof -
  assume "wf_state s"
  then have "wf_state (fold (init_light e) ls s)"
    by (rule fold_invariant [rotated]) (rule wf_init_light)
  then show ?thesis
    unfolding light_phase_def Let_def
    by (rule fold_invariant [rotated]) (rule wf_attempt)
qed

lemma consistent_initialize:
  assumes "consistent s"
  shows "consistent (snd (initialize e cfg detect s))"
proof (cases "fst (torn_down e cfg s)")
  case True
  have eq: "snd (initialize e cfg detect s) = after_teardown e cfg s"
    unfolding initialize_left_in_teardown [OF True] by simp
  from assms have wf: "wf_state s" by (simp add: consistent_def)
  have i: "initialized (scanner_device s)"
  proof (rule ccontr)
    assume "\<not> initialized (scanner_device s)"
    from torn_down_uninitialized [OF this, of e cfg] True show False by simp
  qed
  show ?thesis
    unfolding eq consistent_def after_teardown_device
    using wf_after_teardown [OF wf] i by simp
next
  case False
  then have rb: "reaches_binding e cfg detect s"
    unfolding reaches_binding_consistent [OF assms] .
  have "wf_state (after_lights e cfg detect s)"
    unfolding after_lights_def by (rule wf_light_phase [OF wf_bound_endstops [OF assms False]])
  then have "wf_state (snd (initialize e cfg detect s))"
    unfolding wf_state_def initialize_sel(3-6) [OF rb] .
  then show ?thesis
    unfolding consistent_def using initialize_sel(8) [OF rb] by simp
qed

lemma reachable_consistent: "reachable s \<Longrightarrow> consistent s"
proof (induction rule: reachable.induct)
  case reachable_initial
  show ?case by (simp add: consistent_def wf_state_def initial_state_def)
next
  case (reachable_initialize s e cfg detect)
  from reachable_initialize.IH show ?case by (rule consistent_initialize)
next
  case (reachable_cleanup s e)
  then show ?case
    by (auto simp add: consistent_def wf_state_def cleanup_and_exit_eq)
qed


subsection \<open>Teardown order and reinitialization\<close>

lemma demo_camera_controllers:
  "map fst (camera_controllers demo_state) = [''cam'']"
  by code_simp

lemma demo_motor_controllers:
  "map fst (motor_controllers demo_state) = [''motor'']"
  by code_simp

lemma demo_light_controllers:
  "map fst (light_controllers demo_state) = [''light'']"
  by code_simp

lemma demo_endstop_controllers:
  "map fst (endstop_controllers demo_state) = [''endstop'']"
  by code_simp

lemma demo_initialized: "initialized (scanner_device demo_state)"
  by code_simp

lemma demo_trace:
  "trace demo_state = [Create CameraCat ''cam'', Create MotorCat ''motor'',
     Create EndstopCat ''endstop'', StartListener ''endstop'', Create LightCat ''light'',
     TurnOn ''light'', Broadcast]"
  by code_simp

lemma demo_wf: "wf_state demo_state"
  by (simp add: wf_state_def demo_camera_controllers demo_motor_controllers
      demo_light_controllers demo_endstop_controllers)

lemma demo_reachable: "reachable demo_state"
  unfolding demo_state_def by (rule reachable_initialize [OF reachable_initial])



lemma teardown_events_butlast:
  "butlast (teardown_events s) =
     map (Cleanup MotorCat) (map fst (motor_controllers s)) @
     map (Cleanup LightCat) (map fst (light_controllers s)) @
     map (Cleanup CameraCat) (map fst (camera_controllers s)) @
     map (Cleanup EndstopCat) (map fst (endstop_controllers s))"
  by (simp add: teardown_events_def butlast_append)

lemma cleanup_and_exit_trace: "trace (cleanup_and_exit e s) = trace s @ exit_events s"
  by (simp add: cleanup_and_exit_eq exit_events_def)


lemma cleanup_and_exit_registries:
  "camera_controllers (cleanup_and_exit e s) = camera_controllers s"
  "motor_controllers (cleanup_and_exit e s) = motor_controllers s"
  "light_controllers (cleanup_and_exit e s) = light_controllers s"
  "endstop_controllers (cleanup_and_exit e s) = []"
  "scanner_device (cleanup_and_exit e s) = scanner_device s"
  by (simp_all add: cleanup_and_exit_eq)




lemma second_exit_events:
  "exit_events (cleanup_and_exit e s) =
     map (Cleanup CameraCat) (map fst (camera_controllers s)) @
     map TurnOff (map fst (light_controllers s)) @ [ReleasePins]"
  by (simp add: exit_events_def cleanup_and_exit_registries)

lemma demo_second_exit_events:
  "exit_events (cleanup_and_exit env_ok demo_state) =
     [Cleanup CameraCat ''cam'', TurnOff ''light'', ReleasePins]"
  unfolding second_exit_events demo_camera_controllers demo_light_controllers by simp

lemma count_cleanup_endstop:
  "count_list (map (Cleanup CameraCat) xs) (Cleanup EndstopCat n) = 0"
  "count_list (map TurnOff xs) (Cleanup EndstopCat n) = 0"
  "n \<notin> set xs \<Longrightarrow> count_list (map (Cleanup EndstopCat) xs) (Cleanup EndstopCat n) = 0"
  by (induction xs) auto

lemma count_cleanup_endstop_distinct:
  "distinct xs \<Longrightarrow> count_list (map (Cleanup EndstopCat) xs) (Cleanup EndstopCat n) \<le> 1"
  by (induction xs) (auto simp add: count_cleanup_endstop(3))




text \<open>
  C2, as stated, fails. On the example installation the second of two successive calls of
  \<open>cleanup_and_exit\<close> calls the camera's cleanup and the light's turn-off again.
\<close>

theorem cleanup_twice_counterexample:
  "filter is_controller_action
     (drop (length (trace (cleanup_and_exit env_ok demo_state)))
        (trace (cleanup_and_exit env_ok (cleanup_and_exit env_ok demo_state))))
   = [Cleanup CameraCat ''cam'', TurnOff ''light'']"
  unfolding cleanup_and_exit_trace [of env_ok "cleanup_and_exit env_ok demo_state"]
    demo_second_exit_events
  by simp

text \<open>
  C2, amended. For every device state, the first of two successive calls of
  \<open>cleanup_and_exit\<close> empties the endstop registry, so the second call performs no endstop
  cleanup and each endstop controller's cleanup executes at most once across the two
  calls; the second call repeats the cleanup of every camera controller, the turn-off of
  every light and the release of the pins.
\<close>

theorem cleanup_twice:
  "endstop_controllers (cleanup_and_exit e1 s) = []
   \<and> trace (cleanup_and_exit e2 (cleanup_and_exit e1 s)) =
       trace (cleanup_and_exit e1 s) @
         map (Cleanup CameraCat) (map fst (camera_controllers s)) @
         map TurnOff (map fst (light_controllers s)) @ [ReleasePins]
   \<and> (distinct (map fst (endstop_controllers s)) \<longrightarrow>
        count_list (drop (length (trace s)) (trace (cleanup_and_exit e2 (cleanup_and_exit e1 s))))
          (Cleanup EndstopCat n) \<le> 1)"
proof -
  have a: "endstop_controllers (cleanup_and_exit e1 s) = []"
    by (rule cleanup_and_exit_registries(4))
  have b: "trace (cleanup_and_exit e2 (cleanup_and_exit e1 s)) =
       trace (cleanup_and_exit e1 s) @
         map (Cleanup CameraCat) (map fst (camera_controllers s)) @
         map TurnOff (map fst (light_controllers s)) @ [ReleasePins]"
    unfolding cleanup_and_exit_trace [of e2 "cleanup_and_exit e1 s"] second_exit_events ..
  have c: "count_list (drop (length (trace s)) (trace (cleanup_and_exit e2 (cleanup_and_exit e1 s))))
          (Cleanup EndstopCat n) \<le> 1" if "distinct (map fst (endstop_controllers s))"
    unfolding b cleanup_and_exit_trace [of e1 s] exit_events_def
    using count_cleanup_endstop_distinct [OF that, of n]
    by (simp add: count_cleanup_endstop del: map_map)
  from a b c show ?thesis by blast
qed

theorem cleanup_twice_witness:
  "distinct (map fst (endstop_controllers demo_state))
   \<and> count_list (drop (length (trace demo_state))
        (trace (cleanup_and_exit env_ok (cleanup_and_exit env_ok demo_state))))
        (Cleanup EndstopCat ''endstop'') \<le> 1"
  using cleanup_twice [of env_ok demo_state env_ok "''endstop''", THEN conjunct2, THEN conjunct2]
  unfolding demo_endstop_controllers by simp

text \<open>
  C3. When \<open>initialize\<close> is called on an initialized device, the calls it makes are a
  first part without any creation followed by a second part without any cleanup. When the
  call returns, the first part holds the cleanup of every motor, light, camera and endstop
  controller that exists at call time, so every creation comes strictly after every
  destruction; when the call is left by the exception of a removal, the second part is
  empty: nothing has been created.
\<close>

theorem reinitialize_destroys_first:
  assumes "wf_state s" and "initialized (scanner_device s)"
  shows "\<exists>pre post.
      trace (snd (initialize e cfg detect s)) = trace s @ pre @ post
      \<and> list_all (\<lambda>a. \<not> is_create a) pre
      \<and> list_all (\<lambda>a. \<not> is_cleanup a) post
      \<and> (fst (initialize e cfg detect s) \<longrightarrow> post = [])
      \<and> (\<not> fst (initialize e cfg detect s) \<longrightarrow>
           Cleanup MotorCat ` fst ` set (motor_controllers s) \<subseteq> set pre
           \<and> Cleanup LightCat ` fst ` set (light_controllers s) \<subseteq> set pre
           \<and> Cleanup CameraCat ` fst ` set (camera_controllers s) \<subseteq> set pre
           \<and> Cleanup EndstopCat ` fst ` set (endstop_controllers s) \<subseteq> set pre)"
proof (cases "fst (torn_down e cfg s)")
  case True
  note eq = initialize_left_in_teardown [OF True, of detect]
  from after_teardown_extends [of s e cfg] obtain pre
    where p: "trace (after_teardown e cfg s) = trace s @ pre"
      and q: "list_all (\<lambda>a. is_cleanup a \<or> a = ReleasePins) pre"
    unfolding extends_trace_def by blast
  have nc: "is_cleanup a \<or> a = ReleasePins \<Longrightarrow> \<not> is_create a" for a
    by (cases a) simp_all
  have q': "list_all (\<lambda>a. \<not> is_create a) pre"
    using q nc by (simp add: list_all_iff)
  have "trace (snd (initialize e cfg detect s)) = trace s @ pre @ []
      \<and> list_all (\<lambda>a. \<not> is_create a) pre
      \<and> list_all (\<lambda>a. \<not> is_cleanup a) []
      \<and> (fst (initialize e cfg detect s) \<longrightarrow> [] = ([] :: action list))
      \<and> (\<not> fst (initialize e cfg detect s) \<longrightarrow>
           Cleanup MotorCat ` fst ` set (motor_controllers s) \<subseteq> set pre
           \<and> Cleanup LightCat ` fst ` set (light_controllers s) \<subseteq> set pre
           \<and> Cleanup CameraCat ` fst ` set (camera_controllers s) \<subseteq> set pre
           \<and> Cleanup EndstopCat ` fst ` set (endstop_controllers s) \<subseteq> set pre)"
    unfolding eq using p q' by simp
  then show ?thesis
    by - (rule exI [where x = pre], rule exI [where x = "[]"], assumption)
next
  case False
  note t = after_teardown_returned [OF assms False]
  have rb: "reaches_binding e cfg detect s"
    unfolding reaches_binding_def using False found_returned(1) [OF t(2)] by simp
  from initialize_build [OF rb t(2)] obtain post
    where p: "trace (snd (initialize e cfg detect s)) = trace s @ teardown_events s @ post"
      and q: "list_all (\<lambda>a. \<not> is_cleanup a \<and> a \<noteq> ReleasePins) post"
    unfolding extends_trace_def t(1) by auto
  have q': "list_all (\<lambda>a. \<not> is_cleanup a) post"
    by (rule list.pred_mono_strong [OF q]) simp
  have r: "\<not> fst (initialize e cfg detect s)" by (rule initialize_sel(1) [OF rb])
  have m: "Cleanup MotorCat ` fst ` set (motor_controllers s) \<subseteq> set (teardown_events s)"
    by (auto simp add: teardown_events_def)
  have l: "Cleanup LightCat ` fst ` set (light_controllers s) \<subseteq> set (teardown_events s)"
    by (auto simp add: teardown_events_def)
  have c: "Cleanup CameraCat ` fst ` set (camera_controllers s) \<subseteq> set (teardown_events s)"
    by (auto simp add: teardown_events_def)
  have n: "Cleanup EndstopCat ` fst ` set (endstop_controllers s) \<subseteq> set (teardown_events s)"
    by (auto simp add: teardown_events_def)
  have k: "list_all (\<lambda>a. \<not> is_create a) (teardown_events s)"
    by (simp add: teardown_events_def list_all_iff image_iff) auto
  have "trace (snd (initialize e cfg detect s)) = trace s @ teardown_events s @ post
      \<and> list_all (\<lambda>a. \<not> is_create a) (teardown_events s)
      \<and> list_all (\<lambda>a. \<not> is_cleanup a) post
      \<and> (fst (initialize e cfg detect s) \<longrightarrow> post = [])
      \<and> (\<not> fst (initialize e cfg detect s) \<longrightarrow>
           Cleanup MotorCat ` fst ` set (motor_controllers s) \<subseteq> set (teardown_events s)
           \<and> Cleanup LightCat ` fst ` set (light_controllers s) \<subseteq> set (teardown_events s)
           \<and> Cleanup CameraCat ` fst ` set (camera_controllers s) \<subseteq> set (teardown_events s)
           \<and> Cleanup EndstopCat ` fst ` set (endstop_controllers s) \<subseteq> set (teardown_events s))"
    using p k q' r m l c n by simp
  then show ?thesis
    by - (rule exI [where x = "teardown_events s"], rule exI [where x = post], assumption)
qed

theorem reinitialize_destroys_first_witness:
  "wf_state demo_state \<and> initialized (scanner_device demo_state)
   \<and> \<not> fst (initialize env_ok None False demo_state)
   \<and> fst (initialize env_motor_cleanup_fails None False demo_state)
   \<and> (\<exists>pre post.
      trace (snd (initialize env_ok None False demo_state)) = trace demo_state @ pre @ post
      \<and> Cleanup MotorCat ''motor'' \<in> set pre \<and> Cleanup LightCat ''light'' \<in> set pre
      \<and> Cleanup CameraCat ''cam'' \<in> set pre \<and> Cleanup EndstopCat ''endstop'' \<in> set pre
      \<and> list_all (\<lambda>a. \<not> is_create a) pre
      \<and> list_all (\<lambda>a. \<not> is_cleanup a) post)
   \<and> (\<exists>pre. trace (snd (initialize env_motor_cleanup_fails None False demo_state))
         = trace demo_state @ pre
      \<and> list_all (\<lambda>a. \<not> is_create a) pre)"
proof -
  have a: "fst ` set (motor_controllers demo_state) = {''motor''}"
    using demo_motor_controllers by (metis list.set_map list.simps(15) list.set(1))
  have b: "fst ` set (light_controllers demo_state) = {''light''}"
    using demo_light_controllers by (metis list.set_map list.simps(15) list.set(1))
  have c: "fst ` set (camera_controllers demo_state) = {''cam''}"
    using demo_camera_controllers by (metis list.set_map list.simps(15) list.set(1))
  have d: "fst ` set (endstop_controllers demo_state) = {''endstop''}"
    using demo_endstop_controllers by (metis list.set_map list.simps(15) list.set(1))
  have r1: "\<not> fst (initialize env_ok None False demo_state)" by code_simp
  have r2: "fst (initialize env_motor_cleanup_fails None False demo_state)" by code_simp
  from reinitialize_destroys_first [OF demo_wf demo_initialized, of env_ok None False] r1
  have one: "\<exists>pre post.
      trace (snd (initialize env_ok None False demo_state)) = trace demo_state @ pre @ post
      \<and> Cleanup MotorCat ''motor'' \<in> set pre \<and> Cleanup LightCat ''light'' \<in> set pre
      \<and> Cleanup CameraCat ''cam'' \<in> set pre \<and> Cleanup EndstopCat ''endstop'' \<in> set pre
      \<and> list_all (\<lambda>a. \<not> is_create a) pre
      \<and> list_all (\<lambda>a. \<not> is_cleanup a) post"
    unfolding a b c d by auto
  from reinitialize_destroys_first [OF demo_wf demo_initialized, of env_motor_cleanup_fails None False] r2
  have two: "\<exists>pre. trace (snd (initialize env_motor_cleanup_fails None False demo_state))
         = trace demo_state @ pre
      \<and> list_all (\<lambda>a. \<not> is_create a) pre"
    by auto
  from demo_wf demo_initialized r1 r2 one two show ?thesis by blast
qed


subsection \<open>Device information\<close>

lemma statuses_ok:
  "list_all (\<lambda>n. \<not> isl (get_status e c n)) ns \<Longrightarrow> statuses e c ns = Inr (status_dict e c ns)"
proof (induction ns)
  case Nil
  show ?case by (simp add: status_dict_def)
next
  case (Cons n ns)
  then have ok: "\<not> isl (get_status e c n)" and rest: "statuses e c ns = Inr (status_dict e c ns)"
    by simp_all
  from ok obtain st where st: "get_status e c n = Inr st"
    by (cases "get_status e c n") simp_all
  show ?case by (simp add: st rest status_dict_def)
qed

lemma statuses_ok_filter:
  "list_all (\<lambda>n. \<not> isl (get_status e c n)) ns \<Longrightarrow>
   filter isl (map (\<lambda>q. get_status e (fst q) (snd q)) (map (Pair c) ns)) = []"
  by (induction ns) simp_all

lemma statuses_fail:
  "\<not> list_all (\<lambda>n. \<not> isl (get_status e c n)) ns \<Longrightarrow>
   filter isl (map (\<lambda>q. get_status e (fst q) (snd q)) (map (Pair c) ns)) \<noteq> [] \<and>
   statuses e c ns =
     Inl (projl (hd (filter isl (map (\<lambda>q. get_status e (fst q) (snd q)) (map (Pair c) ns)))))"
proof (induction ns)
  case Nil
  then show ?case by simp
next
  case (Cons n ns)
  show ?case
  proof (cases "get_status e c n")
    case (Inl err)
    then show ?thesis by simp
  next
    case (Inr st)
    with Cons.prems have "\<not> list_all (\<lambda>n. \<not> isl (get_status e c n)) ns" by simp
    from Cons.IH [OF this] Inr show ?thesis by simp
  qed
qed

lemma statuses_cases:
  obtains (ok) "list_all (\<lambda>n. \<not> isl (get_status e c n)) ns"
      "statuses e c ns = Inr (status_dict e c ns)"
      "filter isl (map (\<lambda>q. get_status e (fst q) (snd q)) (map (Pair c) ns)) = []"
  | (fail) "\<not> list_all (\<lambda>n. \<not> isl (get_status e c n)) ns"
      "filter isl (map (\<lambda>q. get_status e (fst q) (snd q)) (map (Pair c) ns)) \<noteq> []"
      "statuses e c ns =
        Inl (projl (hd (filter isl (map (\<lambda>q. get_status e (fst q) (snd q)) (map (Pair c) ns)))))"
  using statuses_ok statuses_ok_filter statuses_fail by blast

text \<open>
  C4, as stated, fails. The example installation is reachable; when the status query of its
  motor controller raises, \<open>get_device_info\<close> raises the same exception instead of
  returning a snapshot.
\<close>

theorem get_device_info_counterexample:
  "reachable demo_state \<and> get_device_info env_motor_status_fails demo_state = Inl RuntimeError"
proof
  show "reachable demo_state" by (rule demo_reachable)
  show "get_device_info env_motor_status_fails demo_state = Inl RuntimeError" by code_simp
qed

text \<open>
  C4, amended. For every device state, reachable ones and those of a partial initialization
  included, \<open>get_device_info\<close> returns a snapshot merging the static descriptor data (name,
  model, shield, initialized flag) with the runtime status of every live camera, motor and
  light controller, provided every one of these status queries succeeds; when one of them
  raises, \<open>get_device_info\<close> raises the exception of the first query that raises (the
  queries go over the cameras, then the motors, then the lights).
\<close>

theorem get_device_info_spec:
  "(all_status_ok e s \<longrightarrow>
      get_device_info e s =
        Inr \<lparr>info_name = device_name (scanner_device s),
             info_model = model (scanner_device s),
             info_shield = shield (scanner_device s),
             info_cameras = status_dict e CameraCat (map fst (camera_controllers s)),
             info_motors = status_dict e MotorCat (map fst (motor_controllers s)),
             info_lights = status_dict e LightCat (map fst (light_controllers s)),
             info_initialized = initialized (scanner_device s)\<rparr>)
   \<and> (\<not> all_status_ok e s \<longrightarrow> get_device_info e s = Inl (first_status_error e s))"
proof (cases rule: statuses_cases [of e CameraCat "map fst (camera_controllers s)"])
  case fail
  then show ?thesis
    by (simp add: get_device_info_def all_status_ok_def first_status_error_def status_queries_def)
next
  case c: ok
  show ?thesis
  proof (cases rule: statuses_cases [of e MotorCat "map fst (motor_controllers s)"])
    case fail
    with c show ?thesis
      by (simp add: get_device_info_def all_status_ok_def first_status_error_def
          status_queries_def)
  next
    case m: ok
    show ?thesis
    proof (cases rule: statuses_cases [of e LightCat "map fst (light_controllers s)"])
      case fail
      with c m show ?thesis
        by (simp add: get_device_info_def all_status_ok_def first_status_error_def
            status_queries_def)
    next
      case ok
      with c m show ?thesis by (simp add: get_device_info_def all_status_ok_def)
    qed
  qed
qed

theorem get_device_info_spec_witness:
  "all_status_ok env_ok demo_state
   \<and> get_device_info env_ok demo_state =
       Inr \<lparr>info_name = ''scanner'', info_model = Some ''classic'',
            info_shield = Some ''greenshield'', info_cameras = [(''cam'', ''ok'')],
            info_motors = [(''motor'', ''ok'')], info_lights = [(''light'', ''ok'')],
            info_initialized = True\<rparr>
   \<and> \<not> all_status_ok env_status_fails demo_state
   \<and> get_device_info env_status_fails demo_state = Inl ValueError"
proof -
  have a: "all_status_ok env_ok demo_state" by code_simp
  have b: "\<not> all_status_ok env_status_fails demo_state" by code_simp
  have c: "\<lparr>info_name = device_name (scanner_device demo_state),
             info_model = model (scanner_device demo_state),
             info_shield = shield (scanner_device demo_state),
             info_cameras = status_dict env_ok CameraCat (map fst (camera_controllers demo_state)),
             info_motors = status_dict env_ok MotorCat (map fst (motor_controllers demo_state)),
             info_lights = status_dict env_ok LightCat (map fst (light_controllers demo_state)),
             info_initialized = initialized (scanner_device demo_state)\<rparr> =
       \<lparr>info_name = ''scanner'', info_model = Some ''classic'',
            info_shield = Some ''greenshield'', info_cameras = [(''cam'', ''ok'')],
            info_motors = [(''motor'', ''ok'')], info_lights = [(''light'', ''ok'')],
            info_initialized = True\<rparr>" by code_simp
  have d: "first_status_error env_status_fails demo_state = ValueError" by code_simp
  from get_device_info_spec [of env_ok demo_state, THEN conjunct1, rule_format, OF a]
  have one: "get_device_info env_ok demo_state =
       Inr \<lparr>info_name = ''scanner'', info_model = Some ''classic'',
            info_shield = Some ''greenshield'', info_cameras = [(''cam'', ''ok'')],
            info_motors = [(''motor'', ''ok'')], info_lights = [(''light'', ''ok'')],
            info_initialized = True\<rparr>"
    unfolding c .
  from get_device_info_spec [of env_status_fails demo_state, THEN conjunct2, rule_format, OF b]
  have two: "get_device_info env_status_fails demo_state = Inl ValueError"
    unfolding d .
  from a one b two show ?thesis by (intro conjI)
qed


subsection \<open>Camera names\<close>

lemma scan_suffix_spec:
  "\<exists>k\<ge>suffix. scan_suffix taken nm suffix = nm @ ''-'' @ str_nat k
      \<and> nm @ ''-'' @ str_nat k \<notin> set taken
      \<and> (\<forall>j. suffix \<le> j \<and> j < k \<longrightarrow> nm @ ''-'' @ str_nat j \<in> set taken)"
proof (induction taken nm suffix rule: scan_suffix.induct)
  case (1 taken nm suffix)
  show ?case
  proof (cases "nm @ ''-'' @ str_nat suffix \<notin> set taken")
    case True
    then have "scan_suffix taken nm suffix = nm @ ''-'' @ str_nat suffix"
      by (simp add: scan_suffix.simps [of taken nm suffix])
    with True show ?thesis by auto
  next
    case False
    then have eq: "scan_suffix taken nm suffix = scan_suffix taken nm (suffix + 1)"
      by (simp add: scan_suffix.simps [of taken nm suffix])
    from 1 [OF False] obtain k where k: "suffix + 1 \<le> k"
      "scan_suffix taken nm (suffix + 1) = nm @ ''-'' @ str_nat k"
      "nm @ ''-'' @ str_nat k \<notin> set taken"
      "\<forall>j. suffix + 1 \<le> j \<and> j < k \<longrightarrow> nm @ ''-'' @ str_nat j \<in> set taken"
      by blast
    have "\<forall>j. suffix \<le> j \<and> j < k \<longrightarrow> nm @ ''-'' @ str_nat j \<in> set taken"
    proof (intro allI impI)
      fix j assume j: "suffix \<le> j \<and> j < k"
      show "nm @ ''-'' @ str_nat j \<in> set taken"
      proof (cases "j = suffix")
        case True
        with False show ?thesis by simp
      next
        case False
        with j have "suffix + 1 \<le> j \<and> j < k" by simp
        with k(4) show ?thesis by blast
      qed
    qed
    with k eq show ?thesis by (intro exI [of _ k]) simp
  qed
qed

lemma unique_camera_name_fresh: "unique_camera_name cams b \<notin> set (map fst cams)"
proof -
  define nm where "nm = (case b of None \<Rightarrow> ''camera'' | Some x \<Rightarrow> if x = [] then ''camera'' else x)"
  show ?thesis
  proof (cases "nm \<in> set (map fst cams)")
    case False
    then show ?thesis by (simp add: unique_camera_name_def nm_def [symmetric] Let_def)
  next
    case True
    then have eq: "unique_camera_name cams b = scan_suffix (map fst cams) nm 2"
      by (simp add: unique_camera_name_def nm_def [symmetric] Let_def)
    from scan_suffix_spec [of 2 "map fst cams" nm] obtain k
      where "scan_suffix (map fst cams) nm 2 = nm @ ''-'' @ str_nat k"
        and "nm @ ''-'' @ str_nat k \<notin> set (map fst cams)"
      by blast
    then show ?thesis unfolding eq by simp
  qed
qed

lemma update_fresh: "k \<notin> fst ` set al \<Longrightarrow> AList.update k v al = al @ [(k, v)]"
  by (induction al) auto

lemma store_detected_eq:
  "store_detected d cams =
     cams @ [(unique_camera_name cams (fst (snd d)),
              \<lparr>cam_type = fst d, cam_name = unique_camera_name cams (fst (snd d)),
               cam_path = fst (snd (snd d)), cam_settings = snd (snd (snd d))\<rparr>)]"
proof -
  have "unique_camera_name cams (fst (snd d)) \<notin> fst ` set cams"
    using unique_camera_name_fresh [of cams "fst (snd d)"] by simp
  then show ?thesis
    by (simp add: store_detected_def add_camera_def Let_def update_fresh)
qed

text \<open>Cameras stored one after the other: each gets the name the helper gives it against the
  cameras stored before it.\<close>

lemma fold_store_detected:
  "length (fold store_detected ds cams) = length cams + length ds
   \<and> take (length cams) (fold store_detected ds cams) = cams
   \<and> (\<forall>i<length ds.
        fst (fold store_detected ds cams ! (length cams + i)) =
          unique_camera_name (take (length cams + i) (fold store_detected ds cams))
            (fst (snd (ds ! i)))
        \<and> cam_name (snd (fold store_detected ds cams ! (length cams + i))) =
            fst (fold store_detected ds cams ! (length cams + i))
        \<and> cam_type (snd (fold store_detected ds cams ! (length cams + i))) = fst (ds ! i))"
proof (induction ds arbitrary: cams)
  case Nil
  show ?case by simp
next
  case (Cons d ds)
  define x where "x = (unique_camera_name cams (fst (snd d)),
              \<lparr>cam_type = fst d, cam_name = unique_camera_name cams (fst (snd d)),
               cam_path = fst (snd (snd d)), cam_settings = snd (snd (snd d))\<rparr>)"
  define r where "r = fold store_detected ds (cams @ [x])"
  have step: "fold store_detected (d # ds) cams = r"
    unfolding r_def x_def by (simp add: store_detected_eq)
  from Cons.IH [of "cams @ [x]"]
  have len: "length r = length cams + 1 + length ds"
    and tk: "take (length cams + 1) r = cams @ [x]"
    and rest: "\<forall>i<length ds.
        fst (r ! (length cams + 1 + i)) =
          unique_camera_name (take (length cams + 1 + i) r) (fst (snd (ds ! i)))
        \<and> cam_name (snd (r ! (length cams + 1 + i))) = fst (r ! (length cams + 1 + i))
        \<and> cam_type (snd (r ! (length cams + 1 + i))) = fst (ds ! i)"
    unfolding r_def by simp_all
  have "take (length cams) r = take (length cams) (take (length cams + 1) r)"
    by (simp add: min_def)
  also have "\<dots> = cams" unfolding tk by simp
  finally have tk0: "take (length cams) r = cams" .
  have "r ! length cams = take (length cams + 1) r ! length cams"
    by simp
  also have "\<dots> = x" unfolding tk by simp
  finally have at0: "r ! length cams = x" .
  have all: "fst (r ! (length cams + i)) =
          unique_camera_name (take (length cams + i) r) (fst (snd ((d # ds) ! i)))
        \<and> cam_name (snd (r ! (length cams + i))) = fst (r ! (length cams + i))
        \<and> cam_type (snd (r ! (length cams + i))) = fst ((d # ds) ! i)"
    if i: "i < length (d # ds)" for i
  proof (cases i)
    case 0
    then show ?thesis by (simp add: at0 tk0) (simp add: x_def)
  next
    case (Suc j)
    with i have "j < length ds" by simp
    with rest have "fst (r ! (length cams + 1 + j)) =
          unique_camera_name (take (length cams + 1 + j) r) (fst (snd (ds ! j)))
        \<and> cam_name (snd (r ! (length cams + 1 + j))) = fst (r ! (length cams + 1 + j))
        \<and> cam_type (snd (r ! (length cams + 1 + j))) = fst (ds ! j)"
      by blast
    then show ?thesis unfolding Suc by simp
  qed
  from len tk0 all show ?case
    unfolding step by simp
qed

lemma detect_linux_fold:
  "snd (detect_linux devs cams) =
     fold store_detected
       (map (\<lambda>cam. (LINUXPY, Some (info_card cam), filename cam, None)) (linux_reported devs)) cams"
  by (induction devs arbitrary: cams) (simp_all add: store_detected_def)

lemma gphoto_fold:
  "fold (\<lambda>c. add_camera GPHOTO2 (Some (fst c)) (snd c) None) cs cams =
     fold store_detected (map (\<lambda>c. (GPHOTO2, Some (fst c), snd c, None)) cs) cams"
  by (induction cs arbitrary: cams) (simp_all add: store_detected_def)

text \<open>The dictionary that a detection returns holds what the three probes report, stored in
  that order.\<close>

lemma detect_cameras_fold:
  assumes "\<not> fst (detect_cameras e s)"
  shows "fst (snd (detect_cameras e s)) = fold store_detected (detected e) []"
proof -
  obtain b s1 where r: "for_each (remove_camera_controller e) (map fst (camera_controllers s)) s = (b, s1)"
    by (cases "for_each (remove_camera_controller e) (map fst (camera_controllers s)) s")
  from assms have b: "\<not> b"
    unfolding detect_cameras_def r by (cases b) simp_all
  define cams1 where "cams1 = (case linux_devices e of None \<Rightarrow> [] | Some devs \<Rightarrow> snd (detect_linux devs []))"
  define cams2 where "cams2 = (case gphoto2_cameras e of None \<Rightarrow> cams1
      | Some cs \<Rightarrow> fold (\<lambda>c. add_camera GPHOTO2 (Some (fst c)) (snd c) None) cs cams1)"
  define cams3 where "cams3 = (if available e PICAMERA2 then
        (case picamera2 e of None \<Rightarrow> cams2
         | Some (picam_name, location) \<Rightarrow>
            add_camera PICAMERA2 picam_name (''/dev/video0'' @ location) (Some []) cams2)
      else cams2)"
  have "fst (snd (detect_cameras e s)) = cams3"
    unfolding detect_cameras_def r cams3_def cams2_def cams1_def using b
    by (simp add: Let_def split: option.split prod.split bool.split)
  moreover have "cams1 = fold store_detected
      (case linux_devices e of None \<Rightarrow> []
       | Some devs \<Rightarrow> map (\<lambda>cam. (LINUXPY, Some (info_card cam), filename cam, None))
                       (linux_reported devs)) []"
    unfolding cams1_def by (simp add: detect_linux_fold split: option.split)
  moreover have "cams2 = fold store_detected
      (case gphoto2_cameras e of None \<Rightarrow> []
       | Some gphoto \<Rightarrow> map (\<lambda>c. (GPHOTO2, Some (fst c), snd c, None)) gphoto) cams1"
    unfolding cams2_def by (simp add: gphoto_fold split: option.split)
  moreover have "cams3 = fold store_detected
      (if available e PICAMERA2 then
        (case picamera2 e of None \<Rightarrow> []
         | Some (picam_name, location) \<Rightarrow>
            [(PICAMERA2, picam_name, ''/dev/video0'' @ location, Some [])])
       else []) cams2"
    unfolding cams3_def by (simp add: store_detected_def split: option.split prod.split)
  ultimately show ?thesis
    unfolding detected_def by (simp only: fold_append comp_apply)
qed

text \<open>
  C7. A detected camera whose (non-empty) base name is already a key of the cameras
  accumulated so far is given the base name followed by \<open>-k\<close>, where \<open>k\<close> is the first of
  2, 3, ... for which that name is free; one whose base name is free keeps it. A detection
  that returns stores one camera for each camera that the V4L2, gphoto2 and Picamera2 probes
  report, in that order, each under the name that the helper gives it against the cameras
  stored before it. Two devices reporting camX are named camX and camX-2, and a third is
  named camX-3, also when the three come from three different back ends.
\<close>

theorem unique_camera_name_spec:
  "(nm \<noteq> [] \<and> nm \<in> set (map fst cams) \<longrightarrow>
      (\<exists>k\<ge>2. unique_camera_name cams (Some nm) = nm @ ''-'' @ str_nat k
         \<and> nm @ ''-'' @ str_nat k \<notin> set (map fst cams)
         \<and> (\<forall>j. 2 \<le> j \<and> j < k \<longrightarrow> nm @ ''-'' @ str_nat j \<in> set (map fst cams))))
   \<and> (nm \<noteq> [] \<and> nm \<notin> set (map fst cams) \<longrightarrow> unique_camera_name cams (Some nm) = nm)
   \<and> (\<not> fst (detect_cameras e s) \<longrightarrow>
        length (fst (snd (detect_cameras e s))) = length (detected e)
        \<and> (\<forall>i<length (detected e).
             fst (fst (snd (detect_cameras e s)) ! i) =
               unique_camera_name (take i (fst (snd (detect_cameras e s))))
                 (fst (snd (detected e ! i)))
             \<and> cam_name (snd (fst (snd (detect_cameras e s)) ! i)) =
                 fst (fst (snd (detect_cameras e s)) ! i)
             \<and> cam_type (snd (fst (snd (detect_cameras e s)) ! i)) = fst (detected e ! i)))
   \<and> map fst (fst (snd (detect_cameras (env_camx 2) initial_state))) = [''camX'', ''camX-2'']
   \<and> map fst (fst (snd (detect_cameras (env_camx 3) initial_state)))
       = [''camX'', ''camX-2'', ''camX-3'']
   \<and> map fst (fst (snd (detect_cameras env_three_backends initial_state)))
       = [''camX'', ''camX-2'', ''camX-3'']"
proof (intro conjI impI)
  assume a: "nm \<noteq> [] \<and> nm \<in> set (map fst cams)"
  then have "unique_camera_name cams (Some nm) = scan_suffix (map fst cams) nm 2"
    by (simp add: unique_camera_name_def)
  then show "\<exists>k\<ge>2. unique_camera_name cams (Some nm) = nm @ ''-'' @ str_nat k
         \<and> nm @ ''-'' @ str_nat k \<notin> set (map fst cams)
         \<and> (\<forall>j. 2 \<le> j \<and> j < k \<longrightarrow> nm @ ''-'' @ str_nat j \<in> set (map fst cams))"
    using scan_suffix_spec [of 2 "map fst cams" nm] by simp
next
  assume "nm \<noteq> [] \<and> nm \<notin> set (map fst cams)"
  then show "unique_camera_name cams (Some nm) = nm"
    by (simp add: unique_camera_name_def)
next
  assume r: "\<not> fst (detect_cameras e s)"
  note f = fold_store_detected [of "detected e" "[]", folded detect_cameras_fold [OF r]]
  from f show "length (fst (snd (detect_cameras e s))) = length (detected e)"
    by simp
  from f show "\<forall>i<length (detected e).
             fst (fst (snd (detect_cameras e s)) ! i) =
               unique_camera_name (take i (fst (snd (detect_cameras e s))))
                 (fst (snd (detected e ! i)))
             \<and> cam_name (snd (fst (snd (detect_cameras e s)) ! i)) =
                 fst (fst (snd (detect_cameras e s)) ! i)
             \<and> cam_type (snd (fst (snd (detect_cameras e s)) ! i)) = fst (detected e ! i)"
    by simp
next
  show "map fst (fst (snd (detect_cameras (env_camx 2) initial_state))) = [''camX'', ''camX-2'']"
    by code_simp
next
  show "map fst (fst (snd (detect_cameras (env_camx 3) initial_state)))
       = [''camX'', ''camX-2'', ''camX-3'']"
    by code_simp
next
  show "map fst (fst (snd (detect_cameras env_three_backends initial_state)))
       = [''camX'', ''camX-2'', ''camX-3'']"
    by code_simp
qed

theorem unique_camera_name_spec_witness:
  "''camX'' \<noteq> [] \<and> ''camX'' \<in> set (map fst camx_cams)
   \<and> (\<exists>k\<ge>2. unique_camera_name camx_cams (Some ''camX'') = ''camX'' @ ''-'' @ str_nat k
         \<and> ''camX'' @ ''-'' @ str_nat k \<notin> set (map fst camx_cams))
   \<and> unique_camera_name camx_cams (Some ''camX'') = ''camX-2''
   \<and> ''camY'' \<notin> set (map fst camx_cams)
   \<and> unique_camera_name camx_cams (Some ''camY'') = ''camY''
   \<and> \<not> fst (detect_cameras env_three_backends initial_state)
   \<and> length (fst (snd (detect_cameras env_three_backends initial_state))) = 3
   \<and> fst (fst (snd (detect_cameras env_three_backends initial_state)) ! 1) =
       unique_camera_name (take 1 (fst (snd (detect_cameras env_three_backends initial_state))))
         (Some ''camX'')
   \<and> cam_type (snd (fst (snd (detect_cameras env_three_backends initial_state)) ! 1)) = GPHOTO2"
proof -
  have a: "''camX'' \<noteq> [] \<and> ''camX'' \<in> set (map fst camx_cams)" by code_simp
  have b: "unique_camera_name camx_cams (Some ''camX'') = ''camX-2''" by code_simp
  have c: "''camY'' \<noteq> [] \<and> ''camY'' \<notin> set (map fst camx_cams)" by code_simp
  have d: "\<not> fst (detect_cameras env_three_backends initial_state)" by code_simp
  have l: "length (detected env_three_backends) = 3" by code_simp
  have n: "detected env_three_backends ! 1 = (GPHOTO2, Some ''camX'', ''usb:001,004'', None)"
    by code_simp
  from unique_camera_name_spec [of "''camX''" camx_cams, THEN conjunct1, rule_format, OF a]
  have one: "\<exists>k\<ge>2. unique_camera_name camx_cams (Some ''camX'') = ''camX'' @ ''-'' @ str_nat k
         \<and> ''camX'' @ ''-'' @ str_nat k \<notin> set (map fst camx_cams)" by blast
  from unique_camera_name_spec [of "''camY''" camx_cams, THEN conjunct2, THEN conjunct1,
      rule_format, OF c]
  have two: "unique_camera_name camx_cams (Some ''camY'') = ''camY''" .
  note t = unique_camera_name_spec [of _ _ env_three_backends initial_state,
      THEN conjunct2, THEN conjunct2, THEN conjunct1, rule_format, OF d]
  from t have three: "length (fst (snd (detect_cameras env_three_backends initial_state))) = 3"
    unfolding l by (rule conjunct1)
  from t [THEN conjunct2, rule_format, of 1]
  have four: "fst (fst (snd (detect_cameras env_three_backends initial_state)) ! 1) =
       unique_camera_name (take 1 (fst (snd (detect_cameras env_three_backends initial_state))))
         (Some ''camX'')
     \<and> cam_type (snd (fst (snd (detect_cameras env_three_backends initial_state)) ! 1)) = GPHOTO2"
    unfolding l n by simp
  from a b c d one two three four show ?thesis by (intro conjI) simp_all
qed


end
